theory Spec2Isabelle
  imports Complex_Main
begin

section \<open>The position lifecycle engine of \<^verbatim>\<open>bot.py\<close>\<close>

text \<open>
  A shallow embedding of the trading engine of \<^verbatim>\<open>src/bot.py\<close>: the helpers
  \<^verbatim>\<open>mexc_get\<close> and \<^verbatim>\<open>mexc_post\<close>, the actions \<^verbatim>\<open>market_buy\<close> and
  \<^verbatim>\<open>market_sell\<close>, and the body of \<^verbatim>\<open>trading_loop\<close>.

  Conventions of the embedding.
  \<^item> Python floats (prices, quantities, times, the REAL columns of the table) are
    idealised as exact reals: rounding, infinities and NaN are outside the model.
  \<^item> The exchange, the clock and the operator's control channel are an oracle
    (\<open>env\<close>): every reply is a function of a logical time (\<open>tick\<close>) and of the
    request, and every external interaction advances the tick. A statement quantified
    over all \<open>env\<close> covers every behaviour of the outside world.
  \<^item> A Python exception is a value \<open>Inl e\<close>; the state at the moment of the raise is
    kept beside it, because the table \<^verbatim>\<open>positions\<close> is persistent.
  \<^item> Every gateway call, notification and sleep is appended to the \<open>trace\<close> of the
    state, so that "no call is made" is a statement about the trace.
\<close>

subsection \<open>Decoded JSON and the Python operations applied to it\<close>

datatype json =
    JNull
  | JBool bool
  | JNum real
  | JStr string
  | JArr "json list"
  | JObj "(string \<times> json) list"

text \<open>\<open>JObj kvs\<close> stands for the dict whose value at \<open>k\<close> is \<open>map_of kvs k\<close>.\<close>

datatype error =
    TypeError
  | KeyError
  | IndexError
  | ValueError
  | AttributeError
  | OverflowError
  | RequestError

text \<open>\<open>RequestError\<close> is any exception raised inside \<^verbatim>\<open>requests.post(...).json()\<close>.\<close>

text \<open>Truth value of a decoded reply (\<^verbatim>\<open>if not info\<close>, \<^verbatim>\<open>if candles and ...\<close>).\<close>

fun py_truthy :: "json \<Rightarrow> bool" where
  "py_truthy JNull = False"
| "py_truthy (JBool b) = b"
| "py_truthy (JNum r) = (r \<noteq> 0)"
| "py_truthy (JStr s) = (s \<noteq> [])"
| "py_truthy (JArr xs) = (xs \<noteq> [])"
| "py_truthy (JObj kvs) = (kvs \<noteq> [])"

text \<open>\<^verbatim>\<open>x[k]\<close> with a string key.\<close>

fun py_getitem :: "json \<Rightarrow> string \<Rightarrow> error + json" where
  "py_getitem (JObj kvs) k = (case map_of kvs k of None \<Rightarrow> Inl KeyError | Some v \<Rightarrow> Inr v)"
| "py_getitem _ k = Inl TypeError"

text \<open>\<^verbatim>\<open>x[i]\<close> with a non-negative integer index (the source uses 0, 1 and 4).\<close>

fun py_index :: "json \<Rightarrow> nat \<Rightarrow> error + json" where
  "py_index (JArr xs) i = (if i < length xs then Inr (xs ! i) else Inl IndexError)"
| "py_index (JStr s) i = (if i < length s then Inr (JStr [s ! i]) else Inl IndexError)"
| "py_index (JObj kvs) i = Inl KeyError"
| "py_index _ i = Inl TypeError"

text \<open>Iteration (\<^verbatim>\<open>for s in ...\<close>): a list yields its elements, a dict its keys, a
  string its characters; anything else is not iterable.\<close>

fun py_iter :: "json \<Rightarrow> error + json list" where
  "py_iter (JArr xs) = Inr xs"
| "py_iter (JObj kvs) = Inr (map JStr (remdups (map fst kvs)))"
| "py_iter (JStr s) = Inr (map (\<lambda>c. JStr [c]) s)"
| "py_iter _ = Inl TypeError"

text \<open>\<^verbatim>\<open>s.endswith(suffix)\<close> on strings.\<close>

definition py_endswith :: "string \<Rightarrow> string \<Rightarrow> bool" where
  "py_endswith s suffix =
     (length suffix \<le> length s \<and> drop (length s - length suffix) s = suffix)"

text \<open>\<^verbatim>\<open>p in s\<close> on strings: \<open>p\<close> occurs as a contiguous part of \<open>s\<close>.\<close>

fun py_substring :: "string \<Rightarrow> string \<Rightarrow> bool" where
  "py_substring p [] = (p = [])"
| "py_substring p (c # cs) = (take (length p) (c # cs) = p \<or> py_substring p cs)"

text \<open>\<^verbatim>\<open>k in data\<close> for a string \<open>k\<close>.\<close>

fun py_contains :: "string \<Rightarrow> json \<Rightarrow> error + bool" where
  "py_contains k (JObj kvs) = Inr (k \<in> set (map fst kvs))"
| "py_contains k (JArr xs) = Inr (JStr k \<in> set xs)"
| "py_contains k (JStr s) = Inr (py_substring k s)"
| "py_contains k _ = Inl TypeError"

text \<open>\<^verbatim>\<open>data.get(k, default)\<close>: only a dict has the method.\<close>

fun py_get :: "json \<Rightarrow> string \<Rightarrow> json \<Rightarrow> error + json" where
  "py_get (JObj kvs) k d = (case map_of kvs k of None \<Rightarrow> Inr d | Some v \<Rightarrow> Inr v)"
| "py_get _ k d = Inl AttributeError"

text \<open>\<^verbatim>\<open>a == b\<close> on decoded JSON: \<^verbatim>\<open>True == 1\<close> and \<^verbatim>\<open>False == 0\<close> hold in Python,
  lists compare element by element and dicts as finite maps.\<close>

function (sequential) py_eq :: "json \<Rightarrow> json \<Rightarrow> bool" where
  "py_eq JNull y = (y = JNull)"
| "py_eq (JBool a) y =
     (case y of JBool b \<Rightarrow> a = b | JNum r \<Rightarrow> r = (if a then 1 else 0) | _ \<Rightarrow> False)"
| "py_eq (JNum r) y =
     (case y of JBool b \<Rightarrow> r = (if b then 1 else 0) | JNum r' \<Rightarrow> r = r' | _ \<Rightarrow> False)"
| "py_eq (JStr s) y = (y = JStr s)"
| "py_eq (JArr xs) y =
     (case y of JArr ys \<Rightarrow> length xs = length ys \<and> list_all (\<lambda>(a, b). py_eq a b) (zip xs ys)
      | _ \<Rightarrow> False)"
| "py_eq (JObj kvs) y =
     (case y of
        JObj kvs' \<Rightarrow>
          set (map fst kvs) = set (map fst kvs') \<and>
          list_all (\<lambda>(k, v).
             if map_of kvs k = Some v
             then (case map_of kvs' k of None \<Rightarrow> False | Some w \<Rightarrow> py_eq v w)
             else True) kvs
      | _ \<Rightarrow> False)"

  by pat_completeness auto
termination
proof (relation "measure (\<lambda>(a, b). size a)", goal_cases)
  case 1
  then show ?case by simp
next
  case (2 xs y ys z a b)
  then have "a \<in> set xs" by (auto dest: set_zip_leftD)
  then have "size a < Suc (size_list size xs)"
    by (simp add: less_Suc_eq_le size_list_estimation')
  then show ?case by simp
next
  case (3 kvs y kvs' z k v w)
  then have "(k, v) \<in> set kvs" by simp
  then have "size v < Suc (size_list (size_prod (\<lambda>x. 0) size) kvs)"
    by (induction kvs) auto
  then show ?case by simp
qed

subsection \<open>Configuration constants\<close>

definition INTERVAL :: string where "INTERVAL = ''1m''"
definition CANDLE_LIMIT :: nat where "CANDLE_LIMIT = 5"
definition CHECK_INTERVAL :: nat where "CHECK_INTERVAL = 20"
definition SELL_TIMEOUT :: real where "SELL_TIMEOUT = 7 * 60"
definition TRAIL_PERCENT :: real where "TRAIL_PERCENT = 15 / 100"

subsection \<open>The table \<^verbatim>\<open>positions\<close>\<close>

text \<open>One row of the table. \<^verbatim>\<open>symbol\<close> is declared \<^verbatim>\<open>PRIMARY KEY\<close>; the table is
  modelled as the list of its rows in insertion order, so that the key constraint is a
  property to be proved of the statements the engine issues, not one built into the type.\<close>

record position =
  symbol :: string
  qty :: real
  entry_price :: real
  entry_time :: real
  high_price :: real

text \<open>\<^verbatim>\<open>INSERT OR REPLACE INTO positions VALUES (...)\<close>: a row with the same key is
  removed, then the new row is inserted.\<close>

definition insert_or_replace :: "position \<Rightarrow> position list \<Rightarrow> position list" where
  "insert_or_replace p rows = filter (\<lambda>r. symbol r \<noteq> symbol p) rows @ [p]"

text \<open>\<^verbatim>\<open>SELECT qty FROM positions WHERE symbol=?\<close> followed by \<^verbatim>\<open>fetchone()\<close>.\<close>

definition select_qty :: "string \<Rightarrow> position list \<Rightarrow> real option" where
  "select_qty s rows = map_option qty (find (\<lambda>r. symbol r = s) rows)"

text \<open>\<^verbatim>\<open>DELETE FROM positions WHERE symbol=?\<close>.\<close>

definition delete_position :: "string \<Rightarrow> position list \<Rightarrow> position list" where
  "delete_position s rows = filter (\<lambda>r. symbol r \<noteq> s) rows"

text \<open>\<^verbatim>\<open>UPDATE positions SET high_price=? WHERE symbol=?\<close>.\<close>

definition update_high :: "real \<Rightarrow> string \<Rightarrow> position list \<Rightarrow> position list" where
  "update_high price s rows =
     map (\<lambda>r. if symbol r = s then r\<lparr>high_price := price\<rparr> else r) rows"

subsection \<open>The outside world and the engine's state\<close>

datatype reason = TARGET | TRAIL | TIMEOUT

datatype request =
    ExchangeInfo
  | Klines string string nat
  | TickerPrice string

datatype market_order =
    Buy string real
  | Sell string real

text \<open>The texts handed to \<^verbatim>\<open>send_telegram\<close>, by their format string and arguments.\<close>

datatype message =
    BotLive
  | BuyFailed string json
  | BuyExecuted string real real
  | SellExecuted reason string json

datatype event =
    Get request
  | Post market_order
  | Telegram message
  | Sleep nat

text \<open>The oracle. \<open>bot_running\<close>, \<open>TARGET_MULTIPLIER\<close> and \<open>BUY_USDT_AMOUNT\<close> are the
  module globals the webhook thread rewrites at any time: the engine sees the value
  they have at the tick of the read. \<open>get_reply\<close> is what \<^verbatim>\<open>mexc_get\<close> returns
  (\<open>None\<close> after any exception, which it catches); \<open>post_reply\<close> is what
  \<^verbatim>\<open>mexc_post\<close> returns or raises (it catches nothing); \<open>clock\<close> is \<^verbatim>\<open>time.time()\<close>;
  \<open>float_of_str\<close> is Python's \<^verbatim>\<open>float\<close> on a string (\<open>None\<close>: \<^verbatim>\<open>ValueError\<close>).\<close>

record env =
  bot_running :: "nat \<Rightarrow> bool"
  TARGET_MULTIPLIER :: "nat \<Rightarrow> real"
  BUY_USDT_AMOUNT :: "nat \<Rightarrow> real"
  get_reply :: "nat \<Rightarrow> request \<Rightarrow> json option"
  post_reply :: "nat \<Rightarrow> market_order \<Rightarrow> error + json"
  clock :: "nat \<Rightarrow> real"
  float_of_str :: "string \<Rightarrow> real option"

record state =
  positions :: "position list"
  tick :: nat
  trace :: "event list"

definition emit :: "event \<Rightarrow> state \<Rightarrow> state" where
  "emit ev st = st\<lparr>tick := Suc (tick st), trace := trace st @ [ev]\<rparr>"

text \<open>\<^verbatim>\<open>send_telegram\<close> catches every exception of the HTTP call: it always returns.\<close>

definition send_telegram :: "message \<Rightarrow> state \<Rightarrow> state" where
  "send_telegram msg st = emit (Telegram msg) st"

definition sleep :: "nat \<Rightarrow> state \<Rightarrow> state" where
  "sleep seconds st = emit (Sleep seconds) st"

definition time_time :: "env \<Rightarrow> state \<Rightarrow> real \<times> state" where
  "time_time E st = (clock E (tick st), st\<lparr>tick := Suc (tick st)\<rparr>)"

definition mexc_get :: "env \<Rightarrow> request \<Rightarrow> state \<Rightarrow> json option \<times> state" where
  "mexc_get E rq st = (get_reply E (tick st) rq, emit (Get rq) st)"

definition mexc_post :: "env \<Rightarrow> market_order \<Rightarrow> state \<Rightarrow> (error + json) \<times> state" where
  "mexc_post E ord st = (post_reply E (tick st) ord, emit (Post ord) st)"

text \<open>\<^verbatim>\<open>float(x)\<close> on a decoded JSON value. A decoded number is a double or an
  integer of any size; an integer that does not round to a finite double (the largest
  is \<open>2 ^ 1024 - 2 ^ 971\<close>, and rounding reaches it below \<open>2 ^ 1024 - 2 ^ 970\<close>)
  raises \<^verbatim>\<open>OverflowError\<close>.\<close>

fun py_float :: "env \<Rightarrow> json \<Rightarrow> error + real" where
  "py_float E (JNum r) = (if 2 ^ 1024 - 2 ^ 970 \<le> \<bar>r\<bar> then Inl OverflowError else Inr r)"
| "py_float E (JBool b) = Inr (if b then 1 else 0)"
| "py_float E (JStr s) =
     (case float_of_str E s of None \<Rightarrow> Inl ValueError | Some r \<Rightarrow> Inr r)"
| "py_float E _ = Inl TypeError"

subsection \<open>Trading actions\<close>

text \<open>\<^verbatim>\<open>float(data["fills"][0]["price"])\<close>.\<close>

definition fill_price :: "env \<Rightarrow> json \<Rightarrow> error + real" where
  "fill_price E data =
     (case py_getitem data ''fills'' of
        Inl e \<Rightarrow> Inl e
      | Inr fills \<Rightarrow>
          (case py_index fills 0 of
             Inl e \<Rightarrow> Inl e
           | Inr fill \<Rightarrow>
               (case py_getitem fill ''price'' of
                  Inl e \<Rightarrow> Inl e
                | Inr p \<Rightarrow> py_float E p)))"

text \<open>\<^verbatim>\<open>float(data.get("executedQty", 0))\<close>.\<close>

definition executed_qty :: "env \<Rightarrow> json \<Rightarrow> error + real" where
  "executed_qty E data =
     (case py_get data ''executedQty'' (JNum 0) of
        Inl e \<Rightarrow> Inl e
      | Inr q \<Rightarrow> py_float E q)"

definition market_buy :: "env \<Rightarrow> string \<Rightarrow> state \<Rightarrow> (error + unit) \<times> state" where
  "market_buy E s st =
     (case mexc_post E (Buy s (BUY_USDT_AMOUNT E (tick st))) st of
        (Inl e, st1) \<Rightarrow> (Inl e, st1)
      | (Inr data, st1) \<Rightarrow>
          (case py_contains ''orderId'' data of
             Inl e \<Rightarrow> (Inl e, st1)
           | Inr False \<Rightarrow> (Inr (), send_telegram (BuyFailed s data) st1)
           | Inr True \<Rightarrow>
               (case executed_qty E data of
                  Inl e \<Rightarrow> (Inl e, st1)
                | Inr q \<Rightarrow>
                    (case fill_price E data of
                       Inl e \<Rightarrow> (Inl e, st1)
                     | Inr price \<Rightarrow>
                         (case time_time E st1 of
                            (now, st2) \<Rightarrow>
                              (Inr (),
                               send_telegram (BuyExecuted s q price)
                                 (st2\<lparr>positions :=
                                    insert_or_replace
                                      \<lparr>symbol = s, qty = q, entry_price = price,
                                       entry_time = now, high_price = price\<rparr>
                                      (positions st2)\<rparr>)))))))"

definition market_sell :: "env \<Rightarrow> string \<Rightarrow> reason \<Rightarrow> state \<Rightarrow> (error + unit) \<times> state" where
  "market_sell E s why st =
     (case select_qty s (positions st) of
        None \<Rightarrow> (Inr (), st)
      | Some q \<Rightarrow>
          (case mexc_post E (Sell s q) st of
             (Inl e, st1) \<Rightarrow> (Inl e, st1)
           | (Inr data, st1) \<Rightarrow>
               (Inr (),
                send_telegram (SellExecuted why s data)
                  (st1\<lparr>positions := delete_position s (positions st1)\<rparr>))))"

subsection \<open>The background trader\<close>

text \<open>The set comprehension of \<^verbatim>\<open>trading_loop\<close>, over the items of
  \<^verbatim>\<open>info["symbols"]\<close>: \<^verbatim>\<open>s["status"]\<close> is read first, \<^verbatim>\<open>s["symbol"]\<close> only when
  the status is \<^verbatim>\<open>"TRADING"\<close>, and \<^verbatim>\<open>endswith\<close> exists on strings only.\<close>

fun tradable_usdt :: "json list \<Rightarrow> error + string list" where
  "tradable_usdt [] = Inr []"
| "tradable_usdt (item # items) =
     (case py_getitem item ''status'' of
        Inl e \<Rightarrow> Inl e
      | Inr status \<Rightarrow>
          if status = JStr ''TRADING'' then
            (case py_getitem item ''symbol'' of
               Inl e \<Rightarrow> Inl e
             | Inr (JStr name) \<Rightarrow>
                 if py_endswith name ''USDT'' then
                   (case tradable_usdt items of
                      Inl e \<Rightarrow> Inl e
                    | Inr names \<Rightarrow> Inr (name # names))
                 else tradable_usdt items
             | Inr _ \<Rightarrow> Inl AttributeError)
          else tradable_usdt items)"

text \<open>\<^verbatim>\<open>symbols = {...}\<close>. A Python set has no duplicates and no specified iteration
  order; the model lists its elements once each, in the order of the reply.\<close>

definition listed_symbols :: "json \<Rightarrow> error + string list" where
  "listed_symbols info =
     (case py_getitem info ''symbols'' of
        Inl e \<Rightarrow> Inl e
      | Inr entries \<Rightarrow>
          (case py_iter entries of
             Inl e \<Rightarrow> Inl e
           | Inr items \<Rightarrow>
               (case tradable_usdt items of
                  Inl e \<Rightarrow> Inl e
                | Inr names \<Rightarrow> Inr (remdups names))))"

text \<open>\<^verbatim>\<open>all(c[1] == c[4] for c in candles)\<close>, which stops at the first candle that
  differs.\<close>

fun flat_candles :: "json list \<Rightarrow> error + bool" where
  "flat_candles [] = Inr True"
| "flat_candles (c # cs) =
     (case py_index c 1 of
        Inl e \<Rightarrow> Inl e
      | Inr opening \<Rightarrow>
          (case py_index c 4 of
             Inl e \<Rightarrow> Inl e
           | Inr closing \<Rightarrow> if py_eq opening closing then flat_candles cs else Inr False))"

text \<open>\<^verbatim>\<open>candles and all(...)\<close>.\<close>

definition buy_candidate :: "json option \<Rightarrow> error + bool" where
  "buy_candidate candles =
     (case candles of
        None \<Rightarrow> Inr False
      | Some reply \<Rightarrow>
          if py_truthy reply then
            (case py_iter reply of Inl e \<Rightarrow> Inl e | Inr cs \<Rightarrow> flat_candles cs)
          else Inr False)"

text \<open>\<^verbatim>\<open>for symbol in new: ...\<close>\<close>

fun open_new_listings :: "env \<Rightarrow> string list \<Rightarrow> state \<Rightarrow> (error + unit) \<times> state" where
  "open_new_listings E [] st = (Inr (), st)"
| "open_new_listings E (s # new) st =
     (case mexc_get E (Klines s INTERVAL CANDLE_LIMIT) st of
        (candles, st1) \<Rightarrow>
          (case buy_candidate candles of
             Inl e \<Rightarrow> (Inl e, st1)
           | Inr False \<Rightarrow> open_new_listings E new st1
           | Inr True \<Rightarrow>
               (case market_buy E s st1 of
                  (Inl e, st2) \<Rightarrow> (Inl e, st2)
                | (Inr u, st2) \<Rightarrow> open_new_listings E new st2)))"

text \<open>The body of \<^verbatim>\<open>for s, q, entry, t, high in rows\<close> for one row \<open>r\<close> of the
  snapshot. \<^verbatim>\<open>mexc_get(...)["price"]\<close> on the reply \<^verbatim>\<open>None\<close> raises \<^verbatim>\<open>TypeError\<close>.
  \<^verbatim>\<open>time.time()\<close> is read only when the first two tests fail.\<close>

definition monitor_position :: "env \<Rightarrow> position \<Rightarrow> state \<Rightarrow> (error + unit) \<times> state" where
  "monitor_position E r st =
     (case mexc_get E (TickerPrice (symbol r)) st of
        (None, st1) \<Rightarrow> (Inl TypeError, st1)
      | (Some reply, st1) \<Rightarrow>
          (case py_getitem reply ''price'' of
             Inl e \<Rightarrow> (Inl e, st1)
           | Inr p \<Rightarrow>
               (case py_float E p of
                  Inl e \<Rightarrow> (Inl e, st1)
                | Inr price \<Rightarrow>
                    (let st2 = (if price > high_price r
                                then st1\<lparr>positions :=
                                       update_high price (symbol r) (positions st1)\<rparr>
                                else st1);
                         high = (if price > high_price r then price else high_price r)
                     in if price \<ge> entry_price r * TARGET_MULTIPLIER E (tick st2)
                        then market_sell E (symbol r) TARGET st2
                        else if price \<le> high * (1 - TRAIL_PERCENT)
                        then market_sell E (symbol r) TRAIL st2
                        else (case time_time E st2 of
                                (now, st3) \<Rightarrow>
                                  if now - entry_time r \<ge> SELL_TIMEOUT
                                  then market_sell E (symbol r) TIMEOUT st3
                                  else (Inr (), st3))))))"

text \<open>\<^verbatim>\<open>for ... in rows\<close>, over the snapshot \<^verbatim>\<open>SELECT * FROM positions\<close>.\<close>

fun monitor_positions :: "env \<Rightarrow> position list \<Rightarrow> state \<Rightarrow> (error + unit) \<times> state" where
  "monitor_positions E [] st = (Inr (), st)"
| "monitor_positions E (r # rows) st =
     (case monitor_position E r st of
        (Inl e, st1) \<Rightarrow> (Inl e, st1)
      | (Inr u, st1) \<Rightarrow> monitor_positions E rows st1)"

text \<open>One iteration of \<^verbatim>\<open>while True\<close>. The local variable \<^verbatim>\<open>known\<close> is passed in and
  its new value returned; an iteration left by \<^verbatim>\<open>continue\<close> keeps it.\<close>

definition cycle :: "env \<Rightarrow> string set \<Rightarrow> state \<Rightarrow> (error + string set) \<times> state" where
  "cycle E known st =
     (if \<not> bot_running E (tick st) then (Inr known, sleep 2 st)
      else
        (case mexc_get E ExchangeInfo st of
           (None, st1) \<Rightarrow> (Inr known, sleep 5 st1)
         | (Some info, st1) \<Rightarrow>
             if \<not> py_truthy info then (Inr known, sleep 5 st1)
             else
               (case listed_symbols info of
                  Inl e \<Rightarrow> (Inl e, st1)
                | Inr symbols \<Rightarrow>
                    (case open_new_listings E (filter (\<lambda>s. s \<notin> known) symbols) st1 of
                       (Inl e, st2) \<Rightarrow> (Inl e, st2)
                     | (Inr u, st2) \<Rightarrow>
                         (case monitor_positions E (positions st2) st2 of
                            (Inl e, st3) \<Rightarrow> (Inl e, st3)
                          | (Inr v, st3) \<Rightarrow>
                              (Inr (set symbols), sleep CHECK_INTERVAL st3))))))"

text \<open>The loop itself never leaves \<^verbatim>\<open>while True\<close> by itself, so it is run on fuel:
  \<open>trading_cycles E n known st\<close> runs at most \<open>n\<close> iterations. The result \<open>None\<close>
  says that the loop is still running after them, \<open>Some e\<close> that an iteration raised
  \<open>e\<close>, which ends the thread (nothing in \<^verbatim>\<open>trading_loop\<close> catches it).\<close>

fun trading_cycles :: "env \<Rightarrow> nat \<Rightarrow> string set \<Rightarrow> state \<Rightarrow> error option \<times> state" where
  "trading_cycles E 0 known st = (None, st)"
| "trading_cycles E (Suc n) known st =
     (case cycle E known st of
        (Inl e, st1) \<Rightarrow> (Some e, st1)
      | (Inr known1, st1) \<Rightarrow> trading_cycles E n known1 st1)"

definition trading_loop :: "env \<Rightarrow> nat \<Rightarrow> state \<Rightarrow> error option \<times> state" where
  "trading_loop E n st = trading_cycles E n {} (send_telegram BotLive st)"

subsection \<open>Observing a run\<close>

text \<open>The events a run from \<open>st\<close> to \<open>st'\<close> has added to the trace.\<close>

definition events_since :: "state \<Rightarrow> state \<Rightarrow> event list" where
  "events_since st st' = drop (length (trace st)) (trace st')"

text \<open>\<open>st'\<close> continues the trace of \<open>st\<close>, and every added event satisfies \<open>P\<close>.\<close>

definition extends_by :: "(event \<Rightarrow> bool) \<Rightarrow> state \<Rightarrow> state \<Rightarrow> bool" where
  "extends_by P st st' =
     (take (length (trace st)) (trace st') = trace st \<and> list_all P (events_since st st'))"

fun gateway_call :: "event \<Rightarrow> bool" where
  "gateway_call (Get rq) = True"
| "gateway_call (Post ord) = True"
| "gateway_call _ = False"

text \<open>What the loop over \<^verbatim>\<open>new\<close> may emit.\<close>

fun discovery_event :: "string list \<Rightarrow> event \<Rightarrow> bool" where
  "discovery_event new (Get (Klines s i n)) = (s \<in> set new \<and> i = INTERVAL \<and> n = CANDLE_LIMIT)"
| "discovery_event new (Post (Buy s q)) = (s \<in> set new)"
| "discovery_event new (Telegram m) = True"
| "discovery_event new _ = False"

text \<open>What the loop over \<^verbatim>\<open>rows\<close> may emit.\<close>

fun monitor_event :: "position list \<Rightarrow> event \<Rightarrow> bool" where
  "monitor_event rows (Get (TickerPrice s)) = (s \<in> set (map symbol rows))"
| "monitor_event rows (Post (Sell s q)) = (s \<in> set (map symbol rows))"
| "monitor_event rows (Telegram m) = True"
| "monitor_event rows _ = False"

text \<open>The symbol an event fetches candles for or submits a market buy for.\<close>

fun opens :: "event \<Rightarrow> string option" where
  "opens (Get (Klines s i n)) = Some s"
| "opens (Post (Buy s q)) = Some s"
| "opens _ = None"

text \<open>The reply \<open>info\<close> of \<^verbatim>\<open>/api/v3/exchangeInfo\<close> has, among the items of
  \<^verbatim>\<open>info["symbols"]\<close>, one whose symbol is \<open>s\<close> and whose status is \<^verbatim>\<open>"TRADING"\<close>.\<close>

definition listed_trading :: "json \<Rightarrow> string \<Rightarrow> bool" where
  "listed_trading info s =
     (case py_getitem info ''symbols'' of
        Inl e \<Rightarrow> False
      | Inr entries \<Rightarrow>
          (case py_iter entries of
             Inl e \<Rightarrow> False
           | Inr items \<Rightarrow>
               list_ex (\<lambda>item. py_getitem item ''status'' = Inr (JStr ''TRADING'') \<and>
                               py_getitem item ''symbol'' = Inr (JStr s)) items))"

text \<open>The row \<^verbatim>\<open>market_buy\<close> writes for a fill of \<open>q\<close> at \<open>price\<close>, when called in
  \<open>st\<close>: \<^verbatim>\<open>time.time()\<close> is read after the order was posted.\<close>

definition filled_row :: "env \<Rightarrow> string \<Rightarrow> real \<Rightarrow> real \<Rightarrow> state \<Rightarrow> position" where
  "filled_row E s q price st =
     \<lparr>symbol = s, qty = q, entry_price = price, entry_time = clock E (Suc (tick st)),
      high_price = price\<rparr>"

text \<open>The effect of one price observation on the stored row (the \<^verbatim>\<open>UPDATE\<close> under
  \<^verbatim>\<open>if price > high\<close>), and of a sequence of observations.\<close>

definition observe :: "real \<Rightarrow> position \<Rightarrow> position" where
  "observe price r = (if price > high_price r then r\<lparr>high_price := price\<rparr> else r)"

definition observe_all :: "real list \<Rightarrow> position \<Rightarrow> position" where
  "observe_all prices r = fold observe prices r"

text \<open>The state of \<^verbatim>\<open>trading_loop\<close> once the ticker gave \<open>price\<close> for the row \<open>r\<close> of
  the snapshot: the request is in the trace, and the stored high-water mark is raised
  when the price exceeds the one read with the row.\<close>

definition price_seen :: "real \<Rightarrow> position \<Rightarrow> state \<Rightarrow> state" where
  "price_seen price r st =
     (if price > high_price r
      then (emit (Get (TickerPrice (symbol r))) st)
             \<lparr>positions := update_high price (symbol r) (positions st)\<rparr>
      else emit (Get (TickerPrice (symbol r))) st)"

text \<open>The fill \<^verbatim>\<open>market_buy\<close> reads from the reply to its order when called in \<open>st\<close>:
  the executed quantity and the price of the first fill, present when the order was
  answered, the answer has an \<^verbatim>\<open>orderId\<close> and both numbers can be read.\<close>

definition fill_of :: "env \<Rightarrow> string \<Rightarrow> state \<Rightarrow> (real \<times> real) option" where
  "fill_of E s st =
     (case post_reply E (tick st) (Buy s (BUY_USDT_AMOUNT E (tick st))) of
        Inl e \<Rightarrow> None
      | Inr data \<Rightarrow>
          (case py_contains ''orderId'' data of
             Inr True \<Rightarrow>
               (case executed_qty E data of
                  Inl e \<Rightarrow> None
                | Inr q \<Rightarrow>
                    (case fill_price E data of Inl e \<Rightarrow> None | Inr price \<Rightarrow> Some (q, price)))
           | _ \<Rightarrow> None))"

subsection \<open>The ledger of a run\<close>

text \<open>The price the loop reads from the ticker's reply for \<open>s\<close> at tick \<open>t\<close>
  (\<^verbatim>\<open>float(mexc_get(...)["price"])\<close>), when the reply can be read.\<close>

definition ticker_price :: "env \<Rightarrow> nat \<Rightarrow> string \<Rightarrow> real option" where
  "ticker_price E t s =
     (case get_reply E t (TickerPrice s) of
        None \<Rightarrow> None
      | Some reply \<Rightarrow>
          (case py_getitem reply ''price'' of
             Inl e \<Rightarrow> None
           | Inr p \<Rightarrow> (case py_float E p of Inl e \<Rightarrow> None | Inr price \<Rightarrow> Some price)))"

text \<open>What a run does to the marks, read off the oracle and not off the table: a fill,
  with the row \<^verbatim>\<open>market_buy\<close> writes for it, and a price the ticker gave for the
  symbol of a row of the snapshot. The ledger functions follow the control flow of the
  engine and use its own functions for the state in which the next call is made.\<close>

datatype ledger_entry =
    Opened position
  | Seen string real

definition ledger_buy :: "env \<Rightarrow> string \<Rightarrow> state \<Rightarrow> ledger_entry list" where
  "ledger_buy E s st =
     (case fill_of E s st of
        None \<Rightarrow> []
      | Some (q, price) \<Rightarrow> [Opened (filled_row E s q price st)])"

fun ledger_new_listings :: "env \<Rightarrow> string list \<Rightarrow> state \<Rightarrow> ledger_entry list" where
  "ledger_new_listings E [] st = []"
| "ledger_new_listings E (s # new) st =
     (case mexc_get E (Klines s INTERVAL CANDLE_LIMIT) st of
        (candles, st1) \<Rightarrow>
          (case buy_candidate candles of
             Inl e \<Rightarrow> []
           | Inr False \<Rightarrow> ledger_new_listings E new st1
           | Inr True \<Rightarrow>
               ledger_buy E s st1 @
               (case market_buy E s st1 of
                  (Inl e, st2) \<Rightarrow> []
                | (Inr u, st2) \<Rightarrow> ledger_new_listings E new st2)))"

definition ledger_position :: "env \<Rightarrow> position \<Rightarrow> state \<Rightarrow> ledger_entry list" where
  "ledger_position E r st =
     (case ticker_price E (tick st) (symbol r) of
        None \<Rightarrow> []
      | Some price \<Rightarrow> [Seen (symbol r) price])"

fun ledger_positions :: "env \<Rightarrow> position list \<Rightarrow> state \<Rightarrow> ledger_entry list" where
  "ledger_positions E [] st = []"
| "ledger_positions E (r # rows) st =
     ledger_position E r st @
     (case monitor_position E r st of
        (Inl e, st1) \<Rightarrow> []
      | (Inr u, st1) \<Rightarrow> ledger_positions E rows st1)"

definition ledger_cycle :: "env \<Rightarrow> string set \<Rightarrow> state \<Rightarrow> ledger_entry list" where
  "ledger_cycle E known st =
     (if \<not> bot_running E (tick st) then []
      else
        (case mexc_get E ExchangeInfo st of
           (None, st1) \<Rightarrow> []
         | (Some info, st1) \<Rightarrow>
             if \<not> py_truthy info then []
             else
               (case listed_symbols info of
                  Inl e \<Rightarrow> []
                | Inr symbols \<Rightarrow>
                    ledger_new_listings E (filter (\<lambda>s. s \<notin> known) symbols) st1 @
                    (case open_new_listings E (filter (\<lambda>s. s \<notin> known) symbols) st1 of
                       (Inl e, st2) \<Rightarrow> []
                     | (Inr u, st2) \<Rightarrow> ledger_positions E (positions st2) st2))))"

fun ledger_cycles :: "env \<Rightarrow> nat \<Rightarrow> string set \<Rightarrow> state \<Rightarrow> ledger_entry list" where
  "ledger_cycles E 0 known st = []"
| "ledger_cycles E (Suc n) known st =
     ledger_cycle E known st @
     (case cycle E known st of
        (Inl e, st1) \<Rightarrow> []
      | (Inr known1, st1) \<Rightarrow> ledger_cycles E n known1 st1)"

text \<open>The row of the table for a symbol (\<^verbatim>\<open>SELECT * FROM positions WHERE symbol=?\<close>).\<close>

definition stored :: "position list \<Rightarrow> string \<Rightarrow> position option" where
  "stored rows s = find (\<lambda>r. symbol r = s) rows"

text \<open>What the ledger says the position of \<open>s\<close> is, from what it was before: a fill of
  \<open>s\<close> makes it the row of the fill, a price seen for \<open>s\<close> is observed by it.\<close>

fun mark_step :: "string \<Rightarrow> ledger_entry \<Rightarrow> position option \<Rightarrow> position option" where
  "mark_step s (Opened row) cur = (if symbol row = s then Some row else cur)"
| "mark_step s (Seen s' price) cur = (if s' = s then map_option (observe price) cur else cur)"

definition tracked :: "ledger_entry list \<Rightarrow> string \<Rightarrow> position option \<Rightarrow> position option" where
  "tracked entries s cur = fold (mark_step s) entries cur"

text \<open>The row of the last fill of \<open>s\<close> in the ledger, and the prices seen for \<open>s\<close>
  since that fill (since the start, when there is none).\<close>

fun opened :: "string \<Rightarrow> ledger_entry list \<Rightarrow> position option" where
  "opened s [] = None"
| "opened s (Opened row # entries) =
     (case opened s entries of
        Some later \<Rightarrow> Some later
      | None \<Rightarrow> if symbol row = s then Some row else None)"
| "opened s (Seen s' price # entries) = opened s entries"

fun seen_since :: "string \<Rightarrow> ledger_entry list \<Rightarrow> real list" where
  "seen_since s [] = []"
| "seen_since s (Opened row # entries) = seen_since s entries"
| "seen_since s (Seen s' price # entries) =
     (if s' = s \<and> opened s entries = None then price # seen_since s entries
      else seen_since s entries)"

subsection \<open>Concrete scenarios\<close>

text \<open>An exchange that answers nothing: every \<^verbatim>\<open>mexc_get\<close> fails, every order raises.\<close>

definition closed_exchange :: env where
  "closed_exchange =
     \<lparr>bot_running = (\<lambda>t. True), TARGET_MULTIPLIER = (\<lambda>t. 10), BUY_USDT_AMOUNT = (\<lambda>t. 1),
      get_reply = (\<lambda>t rq. None), post_reply = (\<lambda>t ord. Inl RequestError),
      clock = (\<lambda>t. 0), float_of_str = (\<lambda>s. None)\<rparr>"

definition holding :: "string \<Rightarrow> real \<Rightarrow> position" where
  "holding s price =
     \<lparr>symbol = s, qty = 1, entry_price = price, entry_time = 0, high_price = price\<rparr>"

definition boot :: "position list \<Rightarrow> state" where
  "boot rows = \<lparr>positions = rows, tick = 0, trace = []\<rparr>"

text \<open>Replies of the exchange: the listing of \<^verbatim>\<open>/api/v3/exchangeInfo\<close> from pairs of
  symbol and status, a ticker price, an order answered with one fill, and candles whose
  open and close agree. Numbers travel as strings, read by \<open>float_table\<close>.\<close>

definition float_table :: "string \<Rightarrow> real option" where
  "float_table =
     map_of [(''2'', 2), (''60'', 60), (''100'', 100), (''120'', 120), (''1000'', 1000)]"

definition listing :: "(string \<times> string) list \<Rightarrow> json" where
  "listing pairs =
     JObj [(''symbols'',
            JArr (map (\<lambda>(s, status). JObj [(''symbol'', JStr s), (''status'', JStr status)])
                   pairs))]"

definition ticker :: "string \<Rightarrow> json" where
  "ticker price = JObj [(''price'', JStr price)]"

definition filled_order :: "string \<Rightarrow> string \<Rightarrow> json" where
  "filled_order q price =
     JObj [(''orderId'', JStr ''7''), (''executedQty'', JStr q),
           (''fills'', JArr [JObj [(''price'', JStr price)]])]"

definition flat_klines :: json where
  "flat_klines =
     JArr [JArr [JNum 0, JStr ''5'', JStr ''5'', JStr ''5'', JStr ''5''],
           JArr [JNum 60, JStr ''5'', JStr ''5'', JStr ''5'', JStr ''5'']]"

text \<open>Every order is filled with quantity 2: at 100 when posted at tick 0, at 120 later.\<close>

definition rising_fills :: env where
  "rising_fills =
     closed_exchange
       \<lparr>post_reply := (\<lambda>t ord. Inr (filled_order ''2'' (if t = 0 then ''100'' else ''120''))),
        float_of_str := float_table\<rparr>"

text \<open>The exchange lists a new pair quoted in USDT, a new pair quoted in BTC and a
  halted pair quoted in USDT; it serves no candles.\<close>

definition mixed_listing :: env where
  "mixed_listing =
     closed_exchange
       \<lparr>get_reply := (\<lambda>t rq. case rq of
            ExchangeInfo \<Rightarrow>
              Some (listing [(''NEWUSDT'', ''TRADING''), (''NEWBTC'', ''TRADING''),
                             (''OLDUSDT'', ''BREAK'')])
          | _ \<Rightarrow> None)\<rparr>"

text \<open>The operator has set the target multiplier to one half. The ticker says 60, the
  clock 500, and a market sell is answered. For a position entered at 100 at time 0
  with high-water mark 200, all three exit conditions hold at once.\<close>

definition all_exits_due :: env where
  "all_exits_due =
     closed_exchange
       \<lparr>TARGET_MULTIPLIER := (\<lambda>t. 1 / 2),
        get_reply := (\<lambda>t rq. Some (ticker ''60'')),
        post_reply := (\<lambda>t ord. Inr (JObj [(''orderId'', JStr ''9'')])),
        clock := (\<lambda>t. 500),
        float_of_str := float_table\<rparr>"

text \<open>The exchange lists nothing; the ticker fails for \<^verbatim>\<open>AUSDT\<close> and says 120 for
  every other symbol.\<close>

definition one_ticker_down :: env where
  "one_ticker_down =
     closed_exchange
       \<lparr>get_reply := (\<lambda>t rq. case rq of
            ExchangeInfo \<Rightarrow> Some (listing [])
          | Klines s i n \<Rightarrow> None
          | TickerPrice s \<Rightarrow> if s = ''AUSDT'' then None else Some (ticker ''120'')),
        float_of_str := float_table\<rparr>"

text \<open>The exchange lists nothing and the ticker says 1000, ten times the entry price
  of the position held; the market sell raises (as every order on
  \<open>closed_exchange\<close>).\<close>

definition sell_raises :: env where
  "sell_raises =
     closed_exchange
       \<lparr>get_reply := (\<lambda>t rq. case rq of
            ExchangeInfo \<Rightarrow> Some (listing [])
          | Klines s i n \<Rightarrow> None
          | TickerPrice s \<Rightarrow> Some (ticker ''1000'')),
        float_of_str := float_table\<rparr>"

text \<open>The exchange lists \<^verbatim>\<open>AUSDT\<close> as trading, with flat candles and a ticker at 120;
  orders are filled as by \<open>rising_fills\<close>.\<close>

definition relisting :: env where
  "relisting =
     rising_fills
       \<lparr>get_reply := (\<lambda>t rq. case rq of
            ExchangeInfo \<Rightarrow> Some (listing [(''AUSDT'', ''TRADING'')])
          | Klines s i n \<Rightarrow> Some flat_klines
          | TickerPrice s \<Rightarrow> Some (ticker ''120''))\<rparr>"

text \<open>As \<open>relisting\<close>, but an order is answered with an \<^verbatim>\<open>orderId\<close> and nothing
  else: the reply carries no fill.\<close>

definition accepted_without_fills :: env where
  "accepted_without_fills =
     relisting\<lparr>post_reply := (\<lambda>t ord. Inr (JObj [(''orderId'', JStr ''7'')]))\<rparr>"

text \<open>\<^verbatim>\<open>BUSDT\<close> is held and \<^verbatim>\<open>AUSDT\<close> is newly listed with flat candles; orders are
  filled as by \<open>rising_fills\<close>; the ticker says 110 before tick 10 and 130 from then
  on.\<close>

definition climbing :: env where
  "climbing =
     rising_fills
       \<lparr>get_reply := (\<lambda>t rq. case rq of
            ExchangeInfo \<Rightarrow> Some (listing [(''AUSDT'', ''TRADING'')])
          | Klines s i n \<Rightarrow> Some flat_klines
          | TickerPrice s \<Rightarrow> Some (ticker (if t < 10 then ''110'' else ''130''))),
        float_of_str :=
          map_of [(''2'', 2), (''100'', 100), (''110'', 110), (''120'', 120), (''130'', 130)]\<rparr>"

section \<open>Properties\<close>

subsection \<open>Basic facts\<close>

lemma positions_emit [simp]: "positions (emit ev st) = positions st"
  and tick_emit [simp]: "tick (emit ev st) = Suc (tick st)"
  and trace_emit [simp]: "trace (emit ev st) = trace st @ [ev]"
  by (simp_all add: emit_def)

lemma select_qty_None: "s \<notin> set (map symbol rows) \<Longrightarrow> select_qty s rows = None"
  by (induction rows) (auto simp: select_qty_def)

subsection \<open>Closing a position that is not held\<close>

text \<open>
  Claim C10. For a symbol with no row in the table, \<^verbatim>\<open>market_sell\<close> returns at once:
  the result state is the state it was called in, so no order was posted, no row
  deleted and no notification sent (all of them would show in the state: the table and
  the trace are part of it).
\<close>

theorem market_sell_without_row:
  "s \<notin> set (map symbol (positions st)) \<Longrightarrow> market_sell E s why st = (Inr (), st)"
  by (simp add: market_sell_def select_qty_None)

theorem market_sell_without_row_witness:
  "''BUSDT'' \<notin> set (map symbol (positions (boot [holding ''AUSDT'' 100]))) \<and>
   market_sell closed_exchange ''BUSDT'' TIMEOUT (boot [holding ''AUSDT'' 100]) =
     (Inr (), boot [holding ''AUSDT'' 100])"
proof -
  have absent: "''BUSDT'' \<notin> set (map symbol (positions (boot [holding ''AUSDT'' 100])))"
    by (simp add: boot_def holding_def)
  from absent market_sell_without_row [OF absent] show ?thesis by simp
qed

subsection \<open>Traces only grow\<close>

lemma extends_byI:
  "trace st' = trace st @ evs \<Longrightarrow> list_all P evs \<Longrightarrow> extends_by P st st'"
  by (simp add: extends_by_def events_since_def)

lemma extends_by_trace:
  "extends_by P st st' \<Longrightarrow> trace st' = trace st @ events_since st st'"
  unfolding extends_by_def events_since_def
  by (metis append_take_drop_id)

lemma extends_by_all: "extends_by P st st' \<Longrightarrow> list_all P (events_since st st')"
  by (simp add: extends_by_def)

lemma extends_by_refl [simp]: "extends_by P st st"
  by (simp add: extends_by_def events_since_def)

lemma events_since_append:
  assumes "extends_by P a b" and "extends_by Q b c"
  shows "events_since a c = events_since a b @ events_since b c"
proof -
  have "trace c = trace a @ events_since a b @ events_since b c"
    using assms by (simp add: extends_by_trace)
  then show ?thesis by (simp add: events_since_def [of a c])
qed

lemma extends_by_trans:
  assumes "extends_by P a b" and "extends_by P b c"
  shows "extends_by P a c"
proof (rule extends_byI)
  show "trace c = trace a @ (events_since a b @ events_since b c)"
    using assms by (simp add: extends_by_trace)
  show "list_all P (events_since a b @ events_since b c)"
    using assms by (simp add: extends_by_all)
qed

lemma extends_by_mono:
  assumes "extends_by P a b" and "\<And>ev. P ev \<Longrightarrow> Q ev"
  shows "extends_by Q a b"
  using assms unfolding extends_by_def by (auto simp: list_all_iff)

lemma extends_by_emit: "P ev \<Longrightarrow> extends_by P st (emit ev st)"
  by (rule extends_byI [where evs = "[ev]"]) simp_all

lemma extends_by_emit2: "P ev \<Longrightarrow> P ev' \<Longrightarrow> extends_by P st (emit ev' (emit ev st))"
  by (rule extends_byI [where evs = "[ev, ev']"]) simp_all

subsection \<open>The outcomes of the trading actions\<close>

lemma market_buy_cases:
  obtains
    (raised) e where
      "market_buy E s st = (Inl e, emit (Post (Buy s (BUY_USDT_AMOUNT E (tick st)))) st)"
  | (rejected) data where
      "post_reply E (tick st) (Buy s (BUY_USDT_AMOUNT E (tick st))) = Inr data"
      "py_contains ''orderId'' data = Inr False"
      "market_buy E s st =
         (Inr (), emit (Telegram (BuyFailed s data))
                    (emit (Post (Buy s (BUY_USDT_AMOUNT E (tick st)))) st))"
  | (filled) data q price where
      "post_reply E (tick st) (Buy s (BUY_USDT_AMOUNT E (tick st))) = Inr data"
      "py_contains ''orderId'' data = Inr True"
      "executed_qty E data = Inr q"
      "fill_price E data = Inr price"
      "market_buy E s st =
         (Inr (), emit (Telegram (BuyExecuted s q price))
                    ((emit (Post (Buy s (BUY_USDT_AMOUNT E (tick st)))) st)
                       \<lparr>tick := Suc (Suc (tick st)),
                        positions := insert_or_replace (filled_row E s q price st) (positions st)\<rparr>))"
proof -
  let ?ord = "Buy s (BUY_USDT_AMOUNT E (tick st))"
  let ?st1 = "emit (Post ?ord) st"
  show thesis
  proof (cases "post_reply E (tick st) ?ord")
    case (Inl e)
    then have "market_buy E s st = (Inl e, ?st1)"
      by (simp add: market_buy_def mexc_post_def)
    then show thesis by (rule raised)
  next
    case reply: (Inr data)
    show thesis
    proof (cases "py_contains ''orderId'' data")
      case (Inl e)
      with reply have "market_buy E s st = (Inl e, ?st1)"
        by (simp add: market_buy_def mexc_post_def)
      then show thesis by (rule raised)
    next
      case has: (Inr b)
      show thesis
      proof (cases b)
        case False
        with reply has have "market_buy E s st =
            (Inr (), emit (Telegram (BuyFailed s data)) ?st1)"
          by (simp add: market_buy_def mexc_post_def send_telegram_def)
        with reply has False show thesis by (auto intro: rejected)
      next
        case True
        show thesis
        proof (cases "executed_qty E data")
          case (Inl e)
          with reply has True have "market_buy E s st = (Inl e, ?st1)"
            by (simp add: market_buy_def mexc_post_def)
          then show thesis by (rule raised)
        next
          case q: (Inr q)
          show thesis
          proof (cases "fill_price E data")
            case (Inl e)
            with reply has True q have "market_buy E s st = (Inl e, ?st1)"
              by (simp add: market_buy_def mexc_post_def)
            then show thesis by (rule raised)
          next
            case (Inr price)
            with reply has True q have "market_buy E s st =
              (Inr (), emit (Telegram (BuyExecuted s q price))
                    (?st1\<lparr>tick := Suc (Suc (tick st)),
                        positions := insert_or_replace (filled_row E s q price st) (positions st)\<rparr>))"
              by (simp add: market_buy_def mexc_post_def time_time_def send_telegram_def
                    filled_row_def)
            with reply has True q Inr show thesis by (auto intro: filled)
          qed
        qed
      qed
    qed
  qed
qed

lemma market_sell_cases:
  obtains
    (absent) "select_qty s (positions st) = None" "market_sell E s why st = (Inr (), st)"
  | (raised) q e where
      "select_qty s (positions st) = Some q"
      "post_reply E (tick st) (Sell s q) = Inl e"
      "market_sell E s why st = (Inl e, emit (Post (Sell s q)) st)"
  | (sold) q data where
      "select_qty s (positions st) = Some q"
      "post_reply E (tick st) (Sell s q) = Inr data"
      "market_sell E s why st =
         (Inr (), emit (Telegram (SellExecuted why s data))
                    ((emit (Post (Sell s q)) st)
                       \<lparr>positions := delete_position s (positions st)\<rparr>))"
proof (cases "select_qty s (positions st)")
  case None
  then have "market_sell E s why st = (Inr (), st)" by (simp add: market_sell_def)
  with None show thesis by (rule absent)
next
  case (Some q)
  show thesis
  proof (cases "post_reply E (tick st) (Sell s q)")
    case (Inl e)
    with Some have "market_sell E s why st = (Inl e, emit (Post (Sell s q)) st)"
      by (simp add: market_sell_def mexc_post_def)
    with Some Inl show thesis by (rule raised)
  next
    case (Inr data)
    with Some have "market_sell E s why st =
         (Inr (), emit (Telegram (SellExecuted why s data))
                    ((emit (Post (Sell s q)) st)
                       \<lparr>positions := delete_position s (positions st)\<rparr>))"
      by (simp add: market_sell_def mexc_post_def send_telegram_def)
    with Some Inr show thesis by (rule sold)
  qed
qed

lemma market_buy_extends:
  "extends_by (discovery_event [s]) st (snd (market_buy E s st))"
proof (cases rule: market_buy_cases [of E s st])
  case (raised e)
  then show ?thesis by (simp add: extends_by_emit)
next
  case (rejected data)
  then show ?thesis by (simp add: extends_by_emit2)
next
  case (filled data q price)
  show ?thesis
    by (rule extends_byI [where evs = "[Post (Buy s (BUY_USDT_AMOUNT E (tick st))),
          Telegram (BuyExecuted s q price)]"]) (simp_all add: filled)
qed

lemma market_sell_extends:
  "extends_by (monitor_event [r]) st (snd (market_sell E (symbol r) why st))"
proof (cases rule: market_sell_cases [of "symbol r" st E why])
  case absent
  then show ?thesis by simp
next
  case (raised q e)
  then show ?thesis by (simp add: extends_by_emit)
next
  case (sold q data)
  show ?thesis
    by (rule extends_byI [where evs = "[Post (Sell (symbol r) q),
          Telegram (SellExecuted why (symbol r) data)]"]) (simp_all add: sold)
qed

subsection \<open>The discovery loop\<close>

lemma discovery_event_mono:
  "discovery_event xs ev \<Longrightarrow> set xs \<subseteq> set ys \<Longrightarrow> discovery_event ys ev"
  by (cases "(xs, ev)" rule: discovery_event.cases) auto

lemma open_new_listings_extends:
  "extends_by (discovery_event new) st (snd (open_new_listings E new st))"
proof (induction new arbitrary: st)
  case Nil
  then show ?case by simp
next
  case (Cons s new)
  let ?P = "discovery_event (s # new)"
  let ?st1 = "emit (Get (Klines s INTERVAL CANDLE_LIMIT)) st"
  have step1: "extends_by ?P st ?st1" by (simp add: extends_by_emit)
  have rest: "extends_by ?P st' (snd (open_new_listings E new st'))" for st'
    by (rule extends_by_mono [OF Cons.IH]) (auto elim: discovery_event_mono)
  show ?case
  proof (cases "buy_candidate (get_reply E (tick st) (Klines s INTERVAL CANDLE_LIMIT))")
    case (Inl e)
    with step1 show ?thesis by (simp add: mexc_get_def)
  next
    case cand: (Inr b)
    show ?thesis
    proof (cases b)
      case False
      with cand extends_by_trans [OF step1 rest [of ?st1]] show ?thesis
        by (simp add: mexc_get_def)
    next
      case True
      obtain res st2 where mb: "market_buy E s ?st1 = (res, st2)"
        by (cases "market_buy E s ?st1")
      have "extends_by ?P ?st1 st2"
        using market_buy_extends [of s ?st1 E] mb
        by (auto elim!: extends_by_mono discovery_event_mono)
      with step1 have step2: "extends_by ?P st st2" by (rule extends_by_trans)
      show ?thesis
      proof (cases res)
        case (Inl e)
        with cand True mb step2 show ?thesis by (simp add: mexc_get_def)
      next
        case (Inr u)
        with cand True mb extends_by_trans [OF step2 rest [of st2]] show ?thesis
          by (simp add: mexc_get_def)
      qed
    qed
  qed
qed

subsection \<open>Monitoring one position\<close>

lemma tick_price_seen [simp]: "tick (price_seen price r st) = Suc (tick st)"
  and trace_price_seen [simp]:
    "trace (price_seen price r st) = trace st @ [Get (TickerPrice (symbol r))]"
  by (simp_all add: price_seen_def)

lemma monitor_position_priced:
  assumes "get_reply E (tick st) (TickerPrice (symbol r)) = Some reply"
    and "py_getitem reply ''price'' = Inr p"
    and "py_float E p = Inr price"
  shows "monitor_position E r st =
     (if price \<ge> entry_price r * TARGET_MULTIPLIER E (Suc (tick st))
      then market_sell E (symbol r) TARGET (price_seen price r st)
      else if price \<le> max (high_price r) price * (1 - TRAIL_PERCENT)
      then market_sell E (symbol r) TRAIL (price_seen price r st)
      else if clock E (Suc (tick st)) - entry_time r \<ge> SELL_TIMEOUT
      then market_sell E (symbol r) TIMEOUT ((price_seen price r st)\<lparr>tick := Suc (Suc (tick st))\<rparr>)
      else (Inr (), (price_seen price r st)\<lparr>tick := Suc (Suc (tick st))\<rparr>))"
proof (cases "price > high_price r")
  case True
  then have "max (high_price r) price = price" by simp
  with True assms show ?thesis
    by (simp add: monitor_position_def mexc_get_def price_seen_def time_time_def Let_def)
next
  case False
  then have "max (high_price r) price = high_price r" by simp
  with False assms show ?thesis
    by (simp add: monitor_position_def mexc_get_def price_seen_def time_time_def Let_def)
qed

lemma monitor_position_unpriced:
  assumes "\<not> (\<exists>reply p price. get_reply E (tick st) (TickerPrice (symbol r)) = Some reply \<and>
              py_getitem reply ''price'' = Inr p \<and> py_float E p = Inr price)"
  shows "\<exists>e. monitor_position E r st = (Inl e, emit (Get (TickerPrice (symbol r))) st)"
proof (cases "get_reply E (tick st) (TickerPrice (symbol r))")
  case None
  then show ?thesis by (simp add: monitor_position_def mexc_get_def)
next
  case (Some reply)
  show ?thesis
  proof (cases "py_getitem reply ''price''")
    case (Inl e)
    with Some show ?thesis by (simp add: monitor_position_def mexc_get_def)
  next
    case (Inr p)
    with Some assms obtain e where "py_float E p = Inl e"
      by (cases "py_float E p") auto
    with Some Inr show ?thesis by (simp add: monitor_position_def mexc_get_def)
  qed
qed

lemma monitor_position_cases:
  obtains
    (no_price) e where
      "monitor_position E r st = (Inl e, emit (Get (TickerPrice (symbol r))) st)"
  | (priced) price why where
      "monitor_position E r st = market_sell E (symbol r) why (price_seen price r st) \<or>
       monitor_position E r st =
         market_sell E (symbol r) why ((price_seen price r st)\<lparr>tick := Suc (Suc (tick st))\<rparr>)"
  | (kept) price where
      "monitor_position E r st =
         (Inr (), (price_seen price r st)\<lparr>tick := Suc (Suc (tick st))\<rparr>)"
proof (cases "\<exists>reply p price. get_reply E (tick st) (TickerPrice (symbol r)) = Some reply \<and>
              py_getitem reply ''price'' = Inr p \<and> py_float E p = Inr price")
  case False
  from monitor_position_unpriced [OF False] show thesis by (auto intro: no_price)
next
  case True
  then obtain reply p price where
    "get_reply E (tick st) (TickerPrice (symbol r)) = Some reply"
    "py_getitem reply ''price'' = Inr p" "py_float E p = Inr price"
    by blast
  note eq = monitor_position_priced [OF this]
  consider (a) "price \<ge> entry_price r * TARGET_MULTIPLIER E (Suc (tick st))"
    | (b) "\<not> price \<ge> entry_price r * TARGET_MULTIPLIER E (Suc (tick st))"
          "price \<le> max (high_price r) price * (1 - TRAIL_PERCENT)"
    | (c) "\<not> price \<ge> entry_price r * TARGET_MULTIPLIER E (Suc (tick st))"
          "\<not> price \<le> max (high_price r) price * (1 - TRAIL_PERCENT)"
          "clock E (Suc (tick st)) - entry_time r \<ge> SELL_TIMEOUT"
    | (d) "\<not> price \<ge> entry_price r * TARGET_MULTIPLIER E (Suc (tick st))"
          "\<not> price \<le> max (high_price r) price * (1 - TRAIL_PERCENT)"
          "\<not> clock E (Suc (tick st)) - entry_time r \<ge> SELL_TIMEOUT"
    by blast
  then show thesis
  proof cases
    case a
    with eq have "monitor_position E r st = market_sell E (symbol r) TARGET (price_seen price r st)"
      by simp
    then show thesis by (blast intro: priced)
  next
    case b
    with eq have "monitor_position E r st = market_sell E (symbol r) TRAIL (price_seen price r st)"
      by simp
    then show thesis by (blast intro: priced)
  next
    case c
    with eq have "monitor_position E r st =
      market_sell E (symbol r) TIMEOUT ((price_seen price r st)\<lparr>tick := Suc (Suc (tick st))\<rparr>)"
      by simp
    then show thesis by (blast intro: priced)
  next
    case d
    with eq have "monitor_position E r st =
       (Inr (), (price_seen price r st)\<lparr>tick := Suc (Suc (tick st))\<rparr>)"
      by simp
    then show thesis by (rule kept)
  qed
qed

lemma extends_by_tick [simp]: "extends_by P st (st'\<lparr>tick := n\<rparr>) = extends_by P st st'"
  by (simp add: extends_by_def events_since_def)

lemma extends_by_price_seen: "extends_by (monitor_event [r]) st (price_seen price r st)"
  by (rule extends_byI [where evs = "[Get (TickerPrice (symbol r))]"]) simp_all

lemma monitor_position_extends:
  "extends_by (monitor_event [r]) st (snd (monitor_position E r st))"
proof (cases rule: monitor_position_cases [of E r st])
  case (no_price e)
  then show ?thesis by (simp add: extends_by_emit)
next
  case (priced price why)
  let ?st2 = "price_seen price r st"
  have "extends_by (monitor_event [r]) ?st2 (snd (market_sell E (symbol r) why ?st2))"
    by (rule market_sell_extends)
  with extends_by_price_seen have a: "extends_by (monitor_event [r]) st
      (snd (market_sell E (symbol r) why ?st2))"
    by (rule extends_by_trans)
  let ?st3 = "?st2\<lparr>tick := Suc (Suc (tick st))\<rparr>"
  have "extends_by (monitor_event [r]) ?st3 (snd (market_sell E (symbol r) why ?st3))"
    by (rule market_sell_extends)
  moreover have "extends_by (monitor_event [r]) st ?st3"
    by (simp add: extends_by_price_seen)
  ultimately have b: "extends_by (monitor_event [r]) st
      (snd (market_sell E (symbol r) why ?st3))"
    by (rule extends_by_trans [rotated])
  from priced a b show ?thesis by auto
next
  case (kept price)
  then show ?thesis by (simp add: extends_by_price_seen)
qed

lemma monitor_event_mono:
  "monitor_event xs ev \<Longrightarrow> set xs \<subseteq> set ys \<Longrightarrow> monitor_event ys ev"
  by (cases "(xs, ev)" rule: monitor_event.cases) auto

lemma monitor_positions_extends:
  "extends_by (monitor_event rows) st (snd (monitor_positions E rows st))"
proof (induction rows arbitrary: st)
  case Nil
  then show ?case by simp
next
  case (Cons r rows)
  obtain res st1 where mp: "monitor_position E r st = (res, st1)"
    by (cases "monitor_position E r st")
  have step: "extends_by (monitor_event (r # rows)) st st1"
    using monitor_position_extends [of r st E] mp
    by (auto elim!: extends_by_mono monitor_event_mono)
  show ?case
  proof (cases res)
    case (Inl e)
    with mp step show ?thesis by simp
  next
    case (Inr u)
    have "extends_by (monitor_event (r # rows)) st1 (snd (monitor_positions E rows st1))"
      by (rule extends_by_mono [OF Cons.IH]) (auto elim: monitor_event_mono)
    with step have "extends_by (monitor_event (r # rows)) st (snd (monitor_positions E rows st1))"
      by (rule extends_by_trans)
    with mp Inr show ?thesis by simp
  qed
qed

subsection \<open>What the engine does to the table\<close>

text \<open>A property of the table that each of the three writing statements preserves is
  preserved by every part of the engine, whether it returns or raises.\<close>

lemma market_buy_preserves:
  assumes "\<And>row rows. I rows \<Longrightarrow> symbol row = s \<Longrightarrow> high_price row = entry_price row \<Longrightarrow>
             I (insert_or_replace row rows)"
    and "I (positions st)"
  shows "I (positions (snd (market_buy E s st)))"
proof (cases rule: market_buy_cases [of E s st])
  case (raised e)
  with assms(2) show ?thesis by simp
next
  case (rejected data)
  with assms(2) show ?thesis by simp
next
  case (filled data q price)
  have "I (insert_or_replace (filled_row E s q price st) (positions st))"
    by (rule assms(1) [OF assms(2)]) (simp_all add: filled_row_def)
  with filled show ?thesis by simp
qed

lemma market_sell_preserves:
  assumes "\<And>rows. I rows \<Longrightarrow> I (delete_position s rows)"
    and "I (positions st)"
  shows "I (positions (snd (market_sell E s why st)))"
proof (cases rule: market_sell_cases [of s st E why])
  case absent
  with assms(2) show ?thesis by simp
next
  case (raised q e)
  with assms(2) show ?thesis by simp
next
  case (sold q data)
  with assms show ?thesis by simp
qed

lemma price_seen_preserves:
  assumes "\<And>rows. I rows \<Longrightarrow> high_price r < price \<Longrightarrow> I (update_high price (symbol r) rows)"
    and "I (positions st)"
  shows "I (positions (price_seen price r st))"
  using assms by (simp add: price_seen_def)

lemma monitor_position_preserves:
  assumes del: "\<And>rows. I rows \<Longrightarrow> I (delete_position (symbol r) rows)"
    and upd: "\<And>price rows. I rows \<Longrightarrow> high_price r < price \<Longrightarrow>
                I (update_high price (symbol r) rows)"
    and I: "I (positions st)"
  shows "I (positions (snd (monitor_position E r st)))"
proof (cases rule: monitor_position_cases [of E r st])
  case (no_price e)
  with I show ?thesis by simp
next
  case (priced price why)
  have seen: "I (positions (price_seen price r st))"
    by (rule price_seen_preserves [where I = I, OF upd I])
  have "I (positions (snd (market_sell E (symbol r) why (price_seen price r st))))"
    by (rule market_sell_preserves [where I = I, OF del seen])
  moreover have "I (positions (snd (market_sell E (symbol r) why
      ((price_seen price r st)\<lparr>tick := Suc (Suc (tick st))\<rparr>))))"
    by (rule market_sell_preserves [where I = I, OF del]) (simp_all add: seen)
  ultimately show ?thesis using priced by auto
next
  case (kept price)
  have "I (positions (price_seen price r st))"
    by (rule price_seen_preserves [where I = I, OF upd I])
  with kept show ?thesis by simp
qed

subsection \<open>One row per symbol\<close>

lemma distinct_insert_or_replace:
  "distinct (map symbol rows) \<Longrightarrow> distinct (map symbol (insert_or_replace p rows))"
  by (auto simp: insert_or_replace_def distinct_map_filter)

lemma distinct_delete_position:
  "distinct (map symbol rows) \<Longrightarrow> distinct (map symbol (delete_position s rows))"
  by (simp add: delete_position_def distinct_map_filter)

lemma map_symbol_update_high [simp]: "map symbol (update_high price s rows) = map symbol rows"
  by (induction rows) (simp_all add: update_high_def)

lemma market_buy_distinct:
  "distinct (map symbol (positions st)) \<Longrightarrow>
     distinct (map symbol (positions (snd (market_buy E s st))))"
  by (rule market_buy_preserves [where I = "\<lambda>rows. distinct (map symbol rows)"])
     (simp_all add: distinct_insert_or_replace)

lemma market_sell_distinct:
  "distinct (map symbol (positions st)) \<Longrightarrow>
     distinct (map symbol (positions (snd (market_sell E s why st))))"
  by (rule market_sell_preserves [where I = "\<lambda>rows. distinct (map symbol rows)"])
     (simp_all add: distinct_delete_position)

lemma monitor_position_distinct:
  "distinct (map symbol (positions st)) \<Longrightarrow>
     distinct (map symbol (positions (snd (monitor_position E r st))))"
  by (rule monitor_position_preserves [where I = "\<lambda>rows. distinct (map symbol rows)"])
     (simp_all add: distinct_delete_position)

lemma monitor_positions_distinct:
  "distinct (map symbol (positions st)) \<Longrightarrow>
     distinct (map symbol (positions (snd (monitor_positions E rows st))))"
proof (induction rows arbitrary: st)
  case Nil
  then show ?case by simp
next
  case (Cons r rows)
  obtain res st1 where mp: "monitor_position E r st = (res, st1)"
    by (cases "monitor_position E r st")
  with monitor_position_distinct [OF Cons.prems, of E r]
  have d1: "distinct (map symbol (positions st1))" by simp
  show ?case
  proof (cases res)
    case (Inl e)
    with mp d1 show ?thesis by simp
  next
    case (Inr u)
    with mp Cons.IH [OF d1] show ?thesis by simp
  qed
qed

lemma open_new_listings_distinct:
  "distinct (map symbol (positions st)) \<Longrightarrow>
     distinct (map symbol (positions (snd (open_new_listings E new st))))"
proof (induction new arbitrary: st)
  case Nil
  then show ?case by simp
next
  case (Cons s new)
  let ?st1 = "emit (Get (Klines s INTERVAL CANDLE_LIMIT)) st"
  from Cons.prems have d1: "distinct (map symbol (positions ?st1))" by simp
  show ?case
  proof (cases "buy_candidate (get_reply E (tick st) (Klines s INTERVAL CANDLE_LIMIT))")
    case (Inl e)
    with d1 show ?thesis by (simp add: mexc_get_def)
  next
    case cand: (Inr b)
    show ?thesis
    proof (cases b)
      case False
      with cand Cons.IH [OF d1] show ?thesis by (simp add: mexc_get_def)
    next
      case True
      obtain res st2 where mb: "market_buy E s ?st1 = (res, st2)"
        by (cases "market_buy E s ?st1")
      with market_buy_distinct [OF d1, of E s]
      have d2: "distinct (map symbol (positions st2))" by simp
      show ?thesis
      proof (cases res)
        case (Inl e)
        with cand True mb d2 show ?thesis by (simp add: mexc_get_def)
      next
        case (Inr u)
        with cand True mb Cons.IH [OF d2] show ?thesis by (simp add: mexc_get_def)
      qed
    qed
  qed
qed

subsection \<open>One iteration of the loop\<close>

lemma cycle_cases:
  obtains
    (paused) "\<not> bot_running E (tick st)" "cycle E known st = (Inr known, sleep 2 st)"
  | (no_info) "bot_running E (tick st)"
      "cycle E known st = (Inr known, sleep 5 (emit (Get ExchangeInfo) st))"
  | (bad_info) info e where "bot_running E (tick st)"
      "get_reply E (tick st) ExchangeInfo = Some info" "listed_symbols info = Inl e"
      "cycle E known st = (Inl e, emit (Get ExchangeInfo) st)"
  | (discovery_raised) info symbols e st2 where "bot_running E (tick st)"
      "get_reply E (tick st) ExchangeInfo = Some info" "listed_symbols info = Inr symbols"
      "open_new_listings E (filter (\<lambda>s. s \<notin> known) symbols) (emit (Get ExchangeInfo) st)
         = (Inl e, st2)"
      "cycle E known st = (Inl e, st2)"
  | (monitor_raised) info symbols u st2 e st3 where "bot_running E (tick st)"
      "get_reply E (tick st) ExchangeInfo = Some info" "listed_symbols info = Inr symbols"
      "open_new_listings E (filter (\<lambda>s. s \<notin> known) symbols) (emit (Get ExchangeInfo) st)
         = (Inr u, st2)"
      "monitor_positions E (positions st2) st2 = (Inl e, st3)"
      "cycle E known st = (Inl e, st3)"
  | (completed) info symbols u st2 v st3 where "bot_running E (tick st)"
      "get_reply E (tick st) ExchangeInfo = Some info" "listed_symbols info = Inr symbols"
      "open_new_listings E (filter (\<lambda>s. s \<notin> known) symbols) (emit (Get ExchangeInfo) st)
         = (Inr u, st2)"
      "monitor_positions E (positions st2) st2 = (Inr v, st3)"
      "cycle E known st = (Inr (set symbols), sleep CHECK_INTERVAL st3)"
proof (cases "bot_running E (tick st)")
  case False
  then have "cycle E known st = (Inr known, sleep 2 st)" by (simp add: cycle_def)
  with False show thesis by (rule paused)
next
  case run: True
  let ?st1 = "emit (Get ExchangeInfo) st"
  show thesis
  proof (cases "get_reply E (tick st) ExchangeInfo")
    case None
    with run have "cycle E known st = (Inr known, sleep 5 ?st1)"
      by (simp add: cycle_def mexc_get_def)
    with run show thesis by (rule no_info)
  next
    case got: (Some info)
    show thesis
    proof (cases "py_truthy info")
      case False
      with run got have "cycle E known st = (Inr known, sleep 5 ?st1)"
        by (simp add: cycle_def mexc_get_def)
      with run show thesis by (rule no_info)
    next
      case truthy: True
      show thesis
      proof (cases "listed_symbols info")
        case (Inl e)
        with run got truthy have "cycle E known st = (Inl e, ?st1)"
          by (simp add: cycle_def mexc_get_def)
        with run got Inl show thesis by (rule bad_info)
      next
        case syms: (Inr symbols)
        obtain r2 st2 where
          disc: "open_new_listings E (filter (\<lambda>s. s \<notin> known) symbols) ?st1 = (r2, st2)"
          by (cases "open_new_listings E (filter (\<lambda>s. s \<notin> known) symbols) ?st1")
        show thesis
        proof (cases r2)
          case (Inl e)
          with run got truthy syms disc have "cycle E known st = (Inl e, st2)"
            by (simp add: cycle_def mexc_get_def)
          with run got syms disc Inl show thesis by (auto intro: discovery_raised)
        next
          case u: (Inr u)
          obtain r3 st3 where mon: "monitor_positions E (positions st2) st2 = (r3, st3)"
            by (cases "monitor_positions E (positions st2) st2")
          show thesis
          proof (cases r3)
            case (Inl e)
            with run got truthy syms disc u mon have "cycle E known st = (Inl e, st3)"
              by (simp add: cycle_def mexc_get_def)
            with run got syms disc u mon Inl show thesis by (auto intro: monitor_raised)
          next
            case (Inr v)
            with run got truthy syms disc u mon
            have "cycle E known st = (Inr (set symbols), sleep CHECK_INTERVAL st3)"
              by (simp add: cycle_def mexc_get_def)
            with run got syms disc u mon Inr show thesis by (auto intro: completed)
          qed
        qed
      qed
    qed
  qed
qed

lemma cycle_distinct:
  assumes "distinct (map symbol (positions st))"
  shows "distinct (map symbol (positions (snd (cycle E known st))))"
proof -
  let ?st1 = "emit (Get ExchangeInfo) st"
  have d1: "distinct (map symbol (positions ?st1))" using assms by simp
  have d2: "distinct (map symbol (positions (snd (open_new_listings E new ?st1))))" for new
    using d1 by (rule open_new_listings_distinct)
  show ?thesis
  proof (cases rule: cycle_cases [of E st known])
    case paused
    with assms show ?thesis by (simp add: sleep_def)
  next
    case no_info
    with assms show ?thesis by (simp add: sleep_def)
  next
    case (bad_info info e)
    with assms show ?thesis by simp
  next
    case (discovery_raised info symbols e st2)
    with d2 [of "filter (\<lambda>s. s \<notin> known) symbols"] show ?thesis by simp
  next
    case (monitor_raised info symbols u st2 e st3)
    with d2 [of "filter (\<lambda>s. s \<notin> known) symbols"]
    have "distinct (map symbol (positions st2))" by simp
    from monitor_positions_distinct [OF this, of E "positions st2"] monitor_raised
    show ?thesis by simp
  next
    case (completed info symbols u st2 v st3)
    with d2 [of "filter (\<lambda>s. s \<notin> known) symbols"]
    have "distinct (map symbol (positions st2))" by simp
    from monitor_positions_distinct [OF this, of E "positions st2"] completed
    show ?thesis by (simp add: sleep_def)
  qed
qed

lemma trading_cycles_distinct:
  "distinct (map symbol (positions st)) \<Longrightarrow>
     distinct (map symbol (positions (snd (trading_cycles E n known st))))"
proof (induction n arbitrary: known st)
  case 0
  then show ?case by simp
next
  case (Suc n)
  obtain res st1 where c: "cycle E known st = (res, st1)" by (cases "cycle E known st")
  with cycle_distinct [OF Suc.prems, of E known]
  have d1: "distinct (map symbol (positions st1))" by simp
  show ?case
  proof (cases res)
    case (Inl e)
    with c d1 show ?thesis by simp
  next
    case (Inr known1)
    with c Suc.IH [OF d1] show ?thesis by simp
  qed
qed

subsection \<open>Fills\<close>

lemma market_buy_filled:
  assumes "fill_of E s st = Some (q, price)"
  shows "market_buy E s st =
     (Inr (), emit (Telegram (BuyExecuted s q price))
                ((emit (Post (Buy s (BUY_USDT_AMOUNT E (tick st)))) st)
                   \<lparr>tick := Suc (Suc (tick st)),
                    positions := insert_or_replace (filled_row E s q price st) (positions st)\<rparr>))"
proof -
  from assms obtain data where
    "post_reply E (tick st) (Buy s (BUY_USDT_AMOUNT E (tick st))) = Inr data"
    "py_contains ''orderId'' data = Inr True"
    "executed_qty E data = Inr q" "fill_price E data = Inr price"
    by (auto simp: fill_of_def split: sum.splits bool.splits)
  then show ?thesis
    by (simp add: market_buy_def mexc_post_def time_time_def send_telegram_def filled_row_def)
qed

lemma market_buy_unfilled:
  assumes "fill_of E s st = None"
  shows "positions (snd (market_buy E s st)) = positions st"
proof (cases rule: market_buy_cases [of E s st])
  case (raised e)
  then show ?thesis by simp
next
  case (rejected data)
  then show ?thesis by simp
next
  case (filled data q price)
  with assms show ?thesis by (simp add: fill_of_def)
qed

lemma insert_or_replace_only:
  "filter (\<lambda>r. symbol r = symbol p) (insert_or_replace p rows) = [p]"
proof -
  have "filter (\<lambda>r. symbol r = symbol p) (filter (\<lambda>r. symbol r \<noteq> symbol p) rows) = []"
    by (induction rows) simp_all
  then show ?thesis by (simp add: insert_or_replace_def)
qed

lemma market_buy_filled_row:
  assumes "fill_of E s st = Some (q, price)"
  shows "filter (\<lambda>r. symbol r = s) (positions (snd (market_buy E s st)))
           = [filled_row E s q price st]"
proof -
  have "symbol (filled_row E s q price st) = s" by (simp add: filled_row_def)
  with insert_or_replace_only [of "filled_row E s q price st" "positions st"]
  show ?thesis by (simp add: market_buy_filled [OF assms])
qed

text \<open>
  Claim C5. The table never holds two rows with one symbol: whatever the exchange
  answers, the property is kept by \<^verbatim>\<open>market_buy\<close>, by \<^verbatim>\<open>market_sell\<close>, by one
  iteration of the loop and by any number of iterations, also when one of them raises
  (the table is then the one left at the raise). And a second \<^verbatim>\<open>market_buy\<close> of a
  symbol that is filled leaves exactly one row for the symbol, the row of the second
  fill.
\<close>

theorem one_row_per_symbol:
  "distinct (map symbol (positions st)) \<Longrightarrow>
     (distinct (map symbol (positions (snd (market_buy E s st)))) \<and>
      distinct (map symbol (positions (snd (market_sell E s why st)))) \<and>
      distinct (map symbol (positions (snd (cycle E known st)))) \<and>
      distinct (map symbol (positions (snd (trading_cycles E n known st))))) \<and>
     (fill_of E s (snd (market_buy E s st)) = Some (q, price) \<longrightarrow>
        filter (\<lambda>r. symbol r = s)
          (positions (snd (market_buy E s (snd (market_buy E s st)))))
        = [filled_row E s q price (snd (market_buy E s st))])"
  by (simp add: market_buy_distinct market_sell_distinct cycle_distinct
        trading_cycles_distinct market_buy_filled_row)

lemma rising_fills_first:
  "market_buy rising_fills ''AUSDT'' (boot []) =
     (Inr (), \<lparr>positions = [\<lparr>symbol = ''AUSDT'', qty = 2, entry_price = 100, entry_time = 0,
                             high_price = 100\<rparr>],
              tick = 3,
              trace = [Post (Buy ''AUSDT'' 1), Telegram (BuyExecuted ''AUSDT'' 2 100)]\<rparr>)"
  by (simp add: market_buy_def mexc_post_def rising_fills_def closed_exchange_def boot_def
        filled_order_def float_table_def executed_qty_def fill_price_def time_time_def
        send_telegram_def emit_def insert_or_replace_def)

lemma rising_fills_second:
  "fill_of rising_fills ''AUSDT'' (snd (market_buy rising_fills ''AUSDT'' (boot []))) =
     Some (2, 120)"
  by (simp add: rising_fills_first)
     (simp add: fill_of_def rising_fills_def closed_exchange_def
        filled_order_def float_table_def executed_qty_def fill_price_def)

theorem one_row_per_symbol_witness:
  "distinct (map symbol (positions (boot []))) \<and>
   distinct (map symbol (positions (snd (trading_cycles rising_fills 3 {} (boot []))))) \<and>
   fill_of rising_fills ''AUSDT'' (snd (market_buy rising_fills ''AUSDT'' (boot []))) =
     Some (2, 120) \<and>
   filter (\<lambda>r. symbol r = ''AUSDT'')
     (positions (snd (market_buy rising_fills ''AUSDT''
        (snd (market_buy rising_fills ''AUSDT'' (boot []))))))
   = [\<lparr>symbol = ''AUSDT'', qty = 2, entry_price = 120, entry_time = 0, high_price = 120\<rparr>]"
proof -
  have d: "distinct (map symbol (positions (boot [])))" by (simp add: boot_def)
  have row: "filled_row rising_fills ''AUSDT'' 2 120
      (snd (market_buy rising_fills ''AUSDT'' (boot []))) =
      \<lparr>symbol = ''AUSDT'', qty = 2, entry_price = 120, entry_time = 0, high_price = 120\<rparr>"
    by (simp add: filled_row_def rising_fills_def closed_exchange_def)
  from one_row_per_symbol [OF d, of rising_fills "''AUSDT''" TARGET "{}" 3 2 120]
    d rising_fills_second row
  show ?thesis by simp
qed

subsection \<open>Discovery sees tradable USDT pairs only\<close>

lemma tradable_usdt_sound:
  "tradable_usdt items = Inr names \<Longrightarrow> s \<in> set names \<Longrightarrow>
     py_endswith s ''USDT'' \<and>
     list_ex (\<lambda>item. py_getitem item ''status'' = Inr (JStr ''TRADING'') \<and>
                     py_getitem item ''symbol'' = Inr (JStr s)) items"
proof (induction items arbitrary: names)
  case Nil
  then show ?case by simp
next
  case (Cons item items)
  from Cons.prems(1) obtain status where st: "py_getitem item ''status'' = Inr status"
    by (cases "py_getitem item ''status''") simp_all
  show ?case
  proof (cases "status = JStr ''TRADING''")
    case False
    with Cons st show ?thesis by simp
  next
    case True
    with Cons.prems(1) st obtain name where nm: "py_getitem item ''symbol'' = Inr (JStr name)"
      by (cases "py_getitem item ''symbol''"; cases "projr (py_getitem item ''symbol'')")
         simp_all
    show ?thesis
    proof (cases "py_endswith name ''USDT''")
      case False
      with Cons st True nm show ?thesis by simp
    next
      case usdt: True
      with Cons.prems(1) st True nm obtain rest where
        rest: "tradable_usdt items = Inr rest" "names = name # rest"
        by (cases "tradable_usdt items") auto
      show ?thesis
      proof (cases "s = name")
        case True
        with usdt st \<open>status = JStr ''TRADING''\<close> nm show ?thesis by simp
      next
        case False
        with Cons.prems(2) rest have "s \<in> set rest" by simp
        from Cons.IH [OF rest(1) this] show ?thesis by simp
      qed
    qed
  qed
qed

lemma tradable_usdt_complete:
  "tradable_usdt items = Inr names \<Longrightarrow> py_endswith s ''USDT'' \<Longrightarrow>
     list_ex (\<lambda>item. py_getitem item ''status'' = Inr (JStr ''TRADING'') \<and>
                     py_getitem item ''symbol'' = Inr (JStr s)) items \<Longrightarrow>
     s \<in> set names"
proof (induction items arbitrary: names)
  case Nil
  then show ?case by simp
next
  case (Cons item items)
  from Cons.prems(1) obtain status where st: "py_getitem item ''status'' = Inr status"
    by (cases "py_getitem item ''status''") simp_all
  show ?case
  proof (cases "status = JStr ''TRADING''")
    case False
    with Cons st show ?thesis by simp
  next
    case True
    with Cons.prems(1) st obtain name where nm: "py_getitem item ''symbol'' = Inr (JStr name)"
      by (cases "py_getitem item ''symbol''"; cases "projr (py_getitem item ''symbol'')")
         simp_all
    show ?thesis
    proof (cases "py_endswith name ''USDT''")
      case False
      with Cons st True nm show ?thesis by auto
    next
      case usdt: True
      with Cons.prems(1) st True nm obtain rest where
        rest: "tradable_usdt items = Inr rest" "names = name # rest"
        by (cases "tradable_usdt items") auto
      show ?thesis
      proof (cases "s = name")
        case True
        with rest show ?thesis by simp
      next
        case False
        with Cons.prems(3) nm have "list_ex (\<lambda>item. py_getitem item ''status'' = Inr (JStr ''TRADING'') \<and>
                     py_getitem item ''symbol'' = Inr (JStr s)) items" by simp
        from Cons.IH [OF rest(1) Cons.prems(2) this] rest show ?thesis by simp
      qed
    qed
  qed
qed

lemma listed_symbols_iff:
  assumes "listed_symbols info = Inr symbols"
  shows "s \<in> set symbols \<longleftrightarrow> listed_trading info s \<and> py_endswith s ''USDT''"
proof -
  from assms obtain entries where e: "py_getitem info ''symbols'' = Inr entries"
    by (cases "py_getitem info ''symbols''") (simp_all add: listed_symbols_def)
  with assms obtain items where i: "py_iter entries = Inr items"
    by (cases "py_iter entries") (simp_all add: listed_symbols_def)
  with assms e obtain names where n: "tradable_usdt items = Inr names" "symbols = remdups names"
    by (cases "tradable_usdt items") (simp_all add: listed_symbols_def)
  from tradable_usdt_sound [OF n(1)] tradable_usdt_complete [OF n(1)] e i n(2)
  show ?thesis by (auto simp: listed_trading_def)
qed

lemma discovery_event_opens:
  "discovery_event new ev \<Longrightarrow> opens ev = Some s \<Longrightarrow> s \<in> set new"
  by (cases "(new, ev)" rule: discovery_event.cases) auto

lemma monitor_event_opens: "monitor_event rows ev \<Longrightarrow> opens ev = None"
  by (cases "(rows, ev)" rule: monitor_event.cases) auto

lemma extends_by_sleep: "P (Sleep n) \<Longrightarrow> extends_by P st (sleep n st)"
  by (simp add: sleep_def extends_by_emit)

lemma cycle_extends:
  "extends_by
     (\<lambda>ev. case opens ev of
              None \<Rightarrow> True
            | Some s \<Rightarrow>
                (\<exists>info symbols. get_reply E (tick st) ExchangeInfo = Some info \<and>
                   listed_symbols info = Inr symbols \<and> s \<in> set symbols \<and> s \<notin> known))
     st (snd (cycle E known st))"
  (is "extends_by ?P st _")
proof -
  let ?st1 = "emit (Get ExchangeInfo) st"
  have first: "extends_by ?P st ?st1" by (simp add: extends_by_emit)
  have sleeping: "extends_by ?P st' (sleep n st')" for st' n
    by (simp add: extends_by_sleep)
  have monitoring: "extends_by ?P st' (snd (monitor_positions E rows st'))" for st' rows
    by (rule extends_by_mono [OF monitor_positions_extends]) (simp add: monitor_event_opens)
  show ?thesis
  proof (cases rule: cycle_cases [of E st known])
    case paused
    with sleeping show ?thesis by simp
  next
    case no_info
    with extends_by_trans [OF first sleeping] show ?thesis by simp
  next
    case (bad_info info e)
    with first show ?thesis by simp
  next
    case (discovery_raised info symbols e st2)
    have "extends_by ?P ?st1
        (snd (open_new_listings E (filter (\<lambda>s. s \<notin> known) symbols) ?st1))"
      by (rule extends_by_mono [OF open_new_listings_extends])
         (auto simp: discovery_raised split: option.splits dest: discovery_event_opens)
    with discovery_raised extends_by_trans [OF first] show ?thesis by simp
  next
    case (monitor_raised info symbols u st2 e st3)
    have "extends_by ?P ?st1
        (snd (open_new_listings E (filter (\<lambda>s. s \<notin> known) symbols) ?st1))"
      by (rule extends_by_mono [OF open_new_listings_extends])
         (auto simp: monitor_raised split: option.splits dest: discovery_event_opens)
    with monitor_raised extends_by_trans [OF first] have "extends_by ?P st st2" by simp
    from extends_by_trans [OF this monitoring [of st2 "positions st2"]] monitor_raised
    show ?thesis by simp
  next
    case (completed info symbols u st2 v st3)
    have "extends_by ?P ?st1
        (snd (open_new_listings E (filter (\<lambda>s. s \<notin> known) symbols) ?st1))"
      by (rule extends_by_mono [OF open_new_listings_extends])
         (auto simp: completed split: option.splits dest: discovery_event_opens)
    with completed extends_by_trans [OF first] have "extends_by ?P st st2" by simp
    from extends_by_trans [OF this monitoring [of st2 "positions st2"]] completed
    have "extends_by ?P st st3" by simp
    from extends_by_trans [OF this sleeping [of st3 CHECK_INTERVAL]] completed
    show ?thesis by simp
  qed
qed

lemma cycle_known:
  assumes "fst (cycle E known st) = Inr known'"
  shows "known' = known \<or>
     (\<exists>info symbols. get_reply E (tick st) ExchangeInfo = Some info \<and>
        listed_symbols info = Inr symbols \<and> known' = set symbols)"
  using assms by (cases rule: cycle_cases [of E st known]) auto

text \<open>
  Claim C9. In every iteration, a request for candles and a market buy are made only
  for a symbol that the reply of \<^verbatim>\<open>exchangeInfo\<close> in this iteration lists with status
  \<^verbatim>\<open>TRADING\<close>, that ends with \<^verbatim>\<open>USDT\<close> and that is not in the known set; and the
  known set an iteration hands on is the old one (iteration paused, or no listing
  obtained) or exactly the set of the listed \<^verbatim>\<open>TRADING\<close> symbols ending with \<^verbatim>\<open>USDT\<close>.
  So a pair quoted in another currency is never fetched for candles and never bought.
\<close>

theorem discovery_usdt_only:
  "(ev \<in> set (events_since st (snd (cycle E known st))) \<and> opens ev = Some s \<longrightarrow>
      (\<exists>info. get_reply E (tick st) ExchangeInfo = Some info \<and> listed_trading info s) \<and>
      py_endswith s ''USDT'' \<and> s \<notin> known) \<and>
   (fst (cycle E known st) = Inr known' \<longrightarrow>
      known' = known \<or>
      (\<exists>info. get_reply E (tick st) ExchangeInfo = Some info \<and>
         known' = {s. listed_trading info s \<and> py_endswith s ''USDT''}))"
proof (intro conjI impI)
  assume a: "ev \<in> set (events_since st (snd (cycle E known st))) \<and> opens ev = Some s"
  from extends_by_all [OF cycle_extends [of E st known]] a
  have "case opens ev of
          None \<Rightarrow> True
        | Some s \<Rightarrow>
            (\<exists>info symbols. get_reply E (tick st) ExchangeInfo = Some info \<and>
               listed_symbols info = Inr symbols \<and> s \<in> set symbols \<and> s \<notin> known)"
    unfolding list_all_iff by blast
  with a obtain info symbols where
    i: "get_reply E (tick st) ExchangeInfo = Some info" "listed_symbols info = Inr symbols"
      "s \<in> set symbols" "s \<notin> known"
    by auto
  from listed_symbols_iff [OF i(2), of s] i(3)
  have l: "listed_trading info s" "py_endswith s ''USDT''" by simp_all
  from i(1) l(1) show "\<exists>info. get_reply E (tick st) ExchangeInfo = Some info \<and> listed_trading info s"
    by blast
  from l(2) show "py_endswith s ''USDT''" .
  from i(4) show "s \<notin> known" .
next
  assume "fst (cycle E known st) = Inr known'"
  from cycle_known [OF this] show "known' = known \<or>
      (\<exists>info. get_reply E (tick st) ExchangeInfo = Some info \<and>
         known' = {s. listed_trading info s \<and> py_endswith s ''USDT''})"
  proof
    assume "known' = known"
    then show ?thesis by simp
  next
    assume "\<exists>info symbols. get_reply E (tick st) ExchangeInfo = Some info \<and>
        listed_symbols info = Inr symbols \<and> known' = set symbols"
    then obtain info symbols where
      i: "get_reply E (tick st) ExchangeInfo = Some info" "listed_symbols info = Inr symbols"
        "known' = set symbols"
      by blast
    from listed_symbols_iff [OF i(2)] i(3)
    have "known' = {s. listed_trading info s \<and> py_endswith s ''USDT''}" by auto
    with i(1) show ?thesis by blast
  qed
qed

lemma positions_boot [simp]: "positions (boot rows) = rows"
  and tick_boot [simp]: "tick (boot rows) = 0"
  and trace_boot [simp]: "trace (boot rows) = []"
  by (simp_all add: boot_def)

lemma mixed_listing_cycle:
  "cycle mixed_listing {} (boot []) =
     (Inr {''NEWUSDT''},
      \<lparr>positions = [], tick = 3,
       trace = [Get ExchangeInfo, Get (Klines ''NEWUSDT'' ''1m'' 5), Sleep 20]\<rparr>)"
  by (simp add: cycle_def mixed_listing_def closed_exchange_def boot_def mexc_get_def
        listing_def listed_symbols_def py_endswith_def buy_candidate_def sleep_def emit_def
        INTERVAL_def CANDLE_LIMIT_def CHECK_INTERVAL_def)

theorem discovery_usdt_only_witness:
  "Get (Klines ''NEWUSDT'' ''1m'' 5) \<in> set (events_since (boot []) (snd (cycle mixed_listing {} (boot [])))) \<and>
   opens (Get (Klines ''NEWUSDT'' ''1m'' 5)) = Some ''NEWUSDT'' \<and>
   fst (cycle mixed_listing {} (boot [])) = Inr {''NEWUSDT''} \<and>
   events_since (boot []) (snd (cycle mixed_listing {} (boot []))) =
     [Get ExchangeInfo, Get (Klines ''NEWUSDT'' ''1m'' 5), Sleep 20] \<and>
   py_endswith ''NEWUSDT'' ''USDT'' \<and> \<not> py_endswith ''NEWBTC'' ''USDT''"
proof -
  have ev: "Get (Klines ''NEWUSDT'' ''1m'' 5) \<in>
      set (events_since (boot []) (snd (cycle mixed_listing {} (boot [])))) \<and>
      opens (Get (Klines ''NEWUSDT'' ''1m'' 5)) = Some ''NEWUSDT''"
    by (simp add: mixed_listing_cycle events_since_def)
  have k: "fst (cycle mixed_listing {} (boot [])) = Inr {''NEWUSDT''}"
    by (simp add: mixed_listing_cycle)
  from discovery_usdt_only [of "Get (Klines ''NEWUSDT'' ''1m'' 5)" "boot []" mixed_listing "{}"
      "''NEWUSDT''" "{''NEWUSDT''}"] ev k
  have "py_endswith ''NEWUSDT'' ''USDT''" by blast
  moreover have "\<not> py_endswith ''NEWBTC'' ''USDT''" by (simp add: py_endswith_def)
  moreover have "events_since (boot []) (snd (cycle mixed_listing {} (boot []))) =
     [Get ExchangeInfo, Get (Klines ''NEWUSDT'' ''1m'' 5), Sleep 20]"
    by (simp add: mixed_listing_cycle events_since_def)
  ultimately show ?thesis using ev k by simp
qed

subsection \<open>The order of the exit conditions\<close>

lemma high_price_observe: "high_price (observe price r) = max (high_price r) price"
  by (simp add: observe_def)

lemma map_symbol_price_seen [simp]:
  "map symbol (positions (price_seen price r st)) = map symbol (positions st)"
  by (simp add: price_seen_def)

text \<open>
  Claim C2. For a position whose current price was obtained, the exit conditions are
  tested in the order target, trailing stop, timeout, and the first that holds decides
  the reason \<^verbatim>\<open>market_sell\<close> is called with: \<^verbatim>\<open>TARGET\<close> when
  \<open>price \<ge> entry_price * target_multiplier\<close>, whatever the other two say; otherwise
  \<^verbatim>\<open>TRAIL\<close> when \<open>price \<le> high_price * (1 - 0.15)\<close>, with the high-water mark
  already raised to the price; otherwise \<^verbatim>\<open>TIMEOUT\<close> when
  \<open>now - entry_time \<ge> 420\<close>. When none holds, nothing is sold: the iteration goes on
  and the table keeps its rows.
\<close>

theorem exit_priority:
  assumes "get_reply E (tick st) (TickerPrice (symbol r)) = Some reply"
    and "py_getitem reply ''price'' = Inr p"
    and "py_float E p = Inr price"
  shows
    "(price \<ge> entry_price r * TARGET_MULTIPLIER E (Suc (tick st)) \<longrightarrow>
        monitor_position E r st = market_sell E (symbol r) TARGET (price_seen price r st)) \<and>
     (\<not> price \<ge> entry_price r * TARGET_MULTIPLIER E (Suc (tick st)) \<and>
      price \<le> high_price (observe price r) * (1 - 0.15) \<longrightarrow>
        monitor_position E r st = market_sell E (symbol r) TRAIL (price_seen price r st)) \<and>
     (\<not> price \<ge> entry_price r * TARGET_MULTIPLIER E (Suc (tick st)) \<and>
      \<not> price \<le> high_price (observe price r) * (1 - 0.15) \<and>
      clock E (Suc (tick st)) - entry_time r \<ge> 420 \<longrightarrow>
        monitor_position E r st =
          market_sell E (symbol r) TIMEOUT
            ((price_seen price r st)\<lparr>tick := Suc (Suc (tick st))\<rparr>)) \<and>
     (\<not> price \<ge> entry_price r * TARGET_MULTIPLIER E (Suc (tick st)) \<and>
      \<not> price \<le> high_price (observe price r) * (1 - 0.15) \<and>
      \<not> clock E (Suc (tick st)) - entry_time r \<ge> 420 \<longrightarrow>
        monitor_position E r st =
          (Inr (), (price_seen price r st)\<lparr>tick := Suc (Suc (tick st))\<rparr>) \<and>
        map symbol (positions (snd (monitor_position E r st))) = map symbol (positions st))"
proof -
  have trail: "(1::real) - 0.15 = 1 - TRAIL_PERCENT" by (simp add: TRAIL_PERCENT_def)
  have timeout: "(420::real) = SELL_TIMEOUT" by (simp add: SELL_TIMEOUT_def)
  show ?thesis
    unfolding trail timeout high_price_observe
    by (simp add: monitor_position_priced [OF assms])
qed

lemma all_exits_due_target:
  "monitor_position all_exits_due ((holding ''AUSDT'' 100)\<lparr>high_price := 200\<rparr>)
      (boot [(holding ''AUSDT'' 100)\<lparr>high_price := 200\<rparr>]) =
     (Inr (),
      \<lparr>positions = [], tick = 3,
       trace = [Get (TickerPrice ''AUSDT''), Post (Sell ''AUSDT'' 1),
                Telegram (SellExecuted TARGET ''AUSDT'' (JObj [(''orderId'', JStr ''9'')]))]\<rparr>)"
  by (simp add: monitor_position_def all_exits_due_def closed_exchange_def boot_def holding_def
        mexc_get_def mexc_post_def ticker_def float_table_def market_sell_def select_qty_def
        delete_position_def send_telegram_def emit_def TRAIL_PERCENT_def SELL_TIMEOUT_def)

theorem exit_priority_witness:
  "get_reply all_exits_due (tick (boot [(holding ''AUSDT'' 100)\<lparr>high_price := 200\<rparr>]))
      (TickerPrice (symbol ((holding ''AUSDT'' 100)\<lparr>high_price := 200\<rparr>))) = Some (ticker ''60'') \<and>
   py_getitem (ticker ''60'') ''price'' = Inr (JStr ''60'') \<and>
   py_float all_exits_due (JStr ''60'') = Inr 60 \<and>
   60 \<ge> entry_price ((holding ''AUSDT'' 100)\<lparr>high_price := 200\<rparr>) *
          TARGET_MULTIPLIER all_exits_due (Suc (tick (boot [(holding ''AUSDT'' 100)\<lparr>high_price := 200\<rparr>]))) \<and>
   60 \<le> high_price (observe 60 ((holding ''AUSDT'' 100)\<lparr>high_price := 200\<rparr>)) * (1 - 0.15) \<and>
   clock all_exits_due (Suc (tick (boot [(holding ''AUSDT'' 100)\<lparr>high_price := 200\<rparr>])))
     - entry_time ((holding ''AUSDT'' 100)\<lparr>high_price := 200\<rparr>) \<ge> 420 \<and>
   market_sell all_exits_due ''AUSDT'' TARGET
      (price_seen 60 ((holding ''AUSDT'' 100)\<lparr>high_price := 200\<rparr>)
         (boot [(holding ''AUSDT'' 100)\<lparr>high_price := 200\<rparr>])) =
     (Inr (),
      \<lparr>positions = [], tick = 3,
       trace = [Get (TickerPrice ''AUSDT''), Post (Sell ''AUSDT'' 1),
                Telegram (SellExecuted TARGET ''AUSDT'' (JObj [(''orderId'', JStr ''9'')]))]\<rparr>)"
proof -
  let ?r = "(holding ''AUSDT'' 100)\<lparr>high_price := 200\<rparr>"
  have a: "get_reply all_exits_due (tick (boot [?r])) (TickerPrice (symbol ?r)) = Some (ticker ''60'')"
    by (simp add: all_exits_due_def closed_exchange_def)
  have b: "py_getitem (ticker ''60'') ''price'' = Inr (JStr ''60'')"
    by (simp add: ticker_def)
  have c: "py_float all_exits_due (JStr ''60'') = Inr 60"
    by (simp add: all_exits_due_def closed_exchange_def float_table_def)
  have d: "60 \<ge> entry_price ?r * TARGET_MULTIPLIER all_exits_due (Suc (tick (boot [?r])))"
    by (simp add: all_exits_due_def closed_exchange_def holding_def)
  have e: "60 \<le> high_price (observe 60 ?r) * (1 - 0.15)"
    by (simp add: observe_def holding_def)
  have f: "clock all_exits_due (Suc (tick (boot [?r]))) - entry_time ?r \<ge> 420"
    by (simp add: all_exits_due_def closed_exchange_def holding_def)
  from exit_priority [OF a b c] d
  have "monitor_position all_exits_due ?r (boot [?r]) =
      market_sell all_exits_due (symbol ?r) TARGET (price_seen 60 ?r (boot [?r]))"
    by blast
  moreover have "symbol ?r = ''AUSDT''" by (simp add: holding_def)
  ultimately have "market_sell all_exits_due ''AUSDT'' TARGET (price_seen 60 ?r (boot [?r])) =
     (Inr (),
      \<lparr>positions = [], tick = 3,
       trace = [Get (TickerPrice ''AUSDT''), Post (Sell ''AUSDT'' 1),
                Telegram (SellExecuted TARGET ''AUSDT'' (JObj [(''orderId'', JStr ''9'')]))]\<rparr>)"
    using all_exits_due_target by simp
  with a b c d e f show ?thesis by blast
qed

subsection \<open>The high-water mark\<close>

lemma observe_fields [simp]:
  "symbol (observe price r) = symbol r"
  "qty (observe price r) = qty r"
  "entry_price (observe price r) = entry_price r"
  "entry_time (observe price r) = entry_time r"
  by (simp_all add: observe_def)

lemma observe_all_Nil [simp]: "observe_all [] r = r"
  and observe_all_Cons [simp]: "observe_all (p # ps) r = observe_all ps (observe p r)"
  and observe_all_append: "observe_all (ps @ qs) r = observe_all qs (observe_all ps r)"
  by (simp_all add: observe_all_def)

lemma entry_price_observe_all [simp]: "entry_price (observe_all ps r) = entry_price r"
  by (induction ps arbitrary: r) simp_all

lemma symbol_observe_all [simp]: "symbol (observe_all ps r) = symbol r"
  by (induction ps arbitrary: r) simp_all

lemma high_price_observe_all:
  "high_price (observe_all ps r) = Max (insert (high_price r) (set ps))"
proof (induction ps arbitrary: r)
  case Nil
  then show ?case by simp
next
  case (Cons p ps)
  have "Max (insert (max (high_price r) p) (set ps)) = Max (insert (high_price r) (insert p (set ps)))"
  proof (cases "set ps = {}")
    case True
    then show ?thesis by (simp add: max.commute)
  next
    case False
    then show ?thesis by (simp add: max.assoc)
  qed
  with Cons.IH [of "observe p r"] show ?case by (simp add: high_price_observe)
qed

lemma high_price_observe_all_mono:
  "high_price r \<le> high_price (observe_all ps r)"
  by (simp add: high_price_observe_all)

lemma filter_symbol_absent:
  "s \<notin> set (map symbol rows) \<Longrightarrow> filter (\<lambda>x. symbol x = s) rows = []"
  by (induction rows) auto

lemma update_high_row:
  assumes "r \<in> set rows" and "distinct (map symbol rows)"
  shows "filter (\<lambda>x. symbol x = symbol r) (update_high price (symbol r) rows)
           = [r\<lparr>high_price := price\<rparr>]"
  using assms
proof (induction rows)
  case Nil
  then show ?case by simp
next
  case (Cons x rows)
  show ?case
  proof (cases "x = r")
    case True
    with Cons.prems(2) have "symbol r \<notin> set (map symbol (update_high price (symbol r) rows))"
      by simp
    then have "filter (\<lambda>x. symbol x = symbol r) (update_high price (symbol r) rows) = []"
      by (rule filter_symbol_absent)
    with True show ?thesis by (simp add: update_high_def)
  next
    case False
    with Cons.prems have "r \<in> set rows" "symbol x \<noteq> symbol r" by auto
    with Cons show ?thesis by (simp add: update_high_def)
  qed
qed

lemma filter_row:
  assumes "r \<in> set rows" and "distinct (map symbol rows)"
  shows "filter (\<lambda>x. symbol x = symbol r) rows = [r]"
  using assms
proof (induction rows)
  case Nil
  then show ?case by simp
next
  case (Cons x rows)
  show ?case
  proof (cases "x = r")
    case True
    with Cons.prems(2) have "symbol r \<notin> set (map symbol rows)" by simp
    then have "filter (\<lambda>x. symbol x = symbol r) rows = []"
      by (rule filter_symbol_absent)
    with True show ?thesis by simp
  next
    case False
    with Cons.prems have "r \<in> set rows" "symbol x \<noteq> symbol r" by auto
    with Cons show ?thesis by simp
  qed
qed

lemma price_seen_row:
  assumes "r \<in> set (positions st)" and "distinct (map symbol (positions st))"
  shows "filter (\<lambda>x. symbol x = symbol r) (positions (price_seen price r st))
           = [observe price r]"
  using update_high_row [OF assms] filter_row [OF assms]
  by (simp add: price_seen_def observe_def)

lemma market_sell_row:
  "filter (\<lambda>x. symbol x = s) (positions (snd (market_sell E s why st))) = [] \<or>
   positions (snd (market_sell E s why st)) = positions st"
proof (cases rule: market_sell_cases [of s st E why])
  case absent
  then show ?thesis by simp
next
  case (raised q e)
  then show ?thesis by simp
next
  case (sold q data)
  have "filter (\<lambda>x. symbol x = s) (delete_position s (positions st)) = []"
    by (auto simp: delete_position_def filter_empty_conv)
  with sold show ?thesis by simp
qed

lemma monitor_position_row:
  assumes "r \<in> set (positions st)" and "distinct (map symbol (positions st))"
    and "get_reply E (tick st) (TickerPrice (symbol r)) = Some reply"
    and "py_getitem reply ''price'' = Inr p"
    and "py_float E p = Inr price"
  shows "filter (\<lambda>x. symbol x = symbol r) (positions (snd (monitor_position E r st)))
           = [observe price r] \<or>
         filter (\<lambda>x. symbol x = symbol r) (positions (snd (monitor_position E r st))) = []"
proof -
  let ?st2 = "price_seen price r st"
  let ?st3 = "?st2\<lparr>tick := Suc (Suc (tick st))\<rparr>"
  have seen: "filter (\<lambda>x. symbol x = symbol r) (positions ?st2) = [observe price r]"
    using assms(1,2) by (rule price_seen_row)
  have sell2: "filter (\<lambda>x. symbol x = symbol r)
        (positions (snd (market_sell E (symbol r) why ?st2))) = [observe price r] \<or>
      filter (\<lambda>x. symbol x = symbol r)
        (positions (snd (market_sell E (symbol r) why ?st2))) = []" for why
    using market_sell_row [of "symbol r" E why ?st2] seen by auto
  have sell3: "filter (\<lambda>x. symbol x = symbol r)
        (positions (snd (market_sell E (symbol r) why ?st3))) = [observe price r] \<or>
      filter (\<lambda>x. symbol x = symbol r)
        (positions (snd (market_sell E (symbol r) why ?st3))) = []" for why
    using market_sell_row [of "symbol r" E why ?st3] seen by auto
  show ?thesis
    unfolding monitor_position_priced [OF assms(3-5)]
    using sell2 sell3 seen by (simp split: if_splits)
qed

subsection \<open>Runs that end the loop\<close>

lemmas scenario_defs =
  closed_exchange_def rising_fills_def one_ticker_down_def sell_raises_def relisting_def
  accepted_without_fills_def listing_def ticker_def filled_order_def flat_klines_def
  float_table_def holding_def boot_def

lemmas engine_defs =
  trading_loop_def cycle_def monitor_position_def market_buy_def market_sell_def
  mexc_get_def mexc_post_def send_telegram_def sleep_def time_time_def emit_def
  listed_symbols_def buy_candidate_def executed_qty_def fill_price_def py_endswith_def
  insert_or_replace_def select_qty_def delete_position_def update_high_def
  INTERVAL_def CANDLE_LIMIT_def CHECK_INTERVAL_def SELL_TIMEOUT_def TRAIL_PERCENT_def

text \<open>
  Claim C1, at a failing input. Two positions are held and the ticker fails for the
  first. \<^verbatim>\<open>mexc_get\<close> returns \<^verbatim>\<open>None\<close>, \<^verbatim>\<open>None["price"]\<close> raises \<^verbatim>\<open>TypeError\<close>, and
  the loop ends in its first iteration: the second position is never asked for (no
  ticker request for \<^verbatim>\<open>BUSDT\<close> in the trace), though three iterations were allowed.
  Both rows are still in the table.
\<close>

theorem price_failure_ends_loop:
  "trading_loop one_ticker_down 3 (boot [holding ''AUSDT'' 100, holding ''BUSDT'' 100]) =
     (Some TypeError,
      \<lparr>positions = [holding ''AUSDT'' 100, holding ''BUSDT'' 100], tick = 3,
       trace = [Telegram BotLive, Get ExchangeInfo, Get (TickerPrice ''AUSDT'')]\<rparr>)"
  by (simp add: numeral_3_eq_3 engine_defs scenario_defs)

text \<open>
  Claim C3, at a failing input. The position has reached its target and the market
  sell raises. The row is still in the table (with its high-water mark raised), but
  the exception ends the loop: no later iteration evaluates the position again, though
  three iterations were allowed.
\<close>

theorem sell_failure_ends_loop:
  "trading_loop sell_raises 3 (boot [holding ''AUSDT'' 100]) =
     (Some RequestError,
      \<lparr>positions = [(holding ''AUSDT'' 100)\<lparr>high_price := 1000\<rparr>], tick = 4,
       trace = [Telegram BotLive, Get ExchangeInfo, Get (TickerPrice ''AUSDT''),
                Post (Sell ''AUSDT'' 1)]\<rparr>)"
  by (simp add: numeral_3_eq_3 engine_defs scenario_defs)

text \<open>
  Claim C7, at a failing input. The order is answered with an \<^verbatim>\<open>orderId\<close> but no
  \<^verbatim>\<open>fills\<close>. \<^verbatim>\<open>data["fills"]\<close> raises \<^verbatim>\<open>KeyError\<close>: no row is written, but no
  notification is sent either (the trace holds the order only), and the exception ends
  the loop that called \<^verbatim>\<open>market_buy\<close>.
\<close>

theorem buy_without_fills_raises:
  "market_buy accepted_without_fills ''AUSDT'' (boot []) =
     (Inl KeyError, \<lparr>positions = [], tick = 1, trace = [Post (Buy ''AUSDT'' 1)]\<rparr>) \<and>
   trading_loop accepted_without_fills 3 (boot []) =
     (Some KeyError,
      \<lparr>positions = [], tick = 4,
       trace = [Telegram BotLive, Get ExchangeInfo, Get (Klines ''AUSDT'' ''1m'' 5),
                Post (Buy ''AUSDT'' 1)]\<rparr>)"
  by (simp add: numeral_3_eq_3 engine_defs scenario_defs)

subsection \<open>Opening a position\<close>

lemma market_buy_ignores_table:
  "fst (market_buy E s (st\<lparr>positions := rows\<rparr>)) = fst (market_buy E s st) \<and>
   trace (snd (market_buy E s (st\<lparr>positions := rows\<rparr>))) = trace (snd (market_buy E s st))"
proof (cases "post_reply E (tick st) (Buy s (BUY_USDT_AMOUNT E (tick st)))")
  case (Inl e)
  then show ?thesis by (simp add: market_buy_def mexc_post_def)
next
  case reply: (Inr data)
  show ?thesis
  proof (cases "py_contains ''orderId'' data")
    case (Inl e)
    with reply show ?thesis by (simp add: market_buy_def mexc_post_def)
  next
    case has: (Inr b)
    show ?thesis
    proof (cases b)
      case False
      with reply has show ?thesis by (simp add: market_buy_def mexc_post_def send_telegram_def)
    next
      case True
      show ?thesis
      proof (cases "executed_qty E data")
        case (Inl e)
        with reply has True show ?thesis by (simp add: market_buy_def mexc_post_def)
      next
        case q: (Inr q)
        show ?thesis
        proof (cases "fill_price E data")
          case (Inl e)
          with reply has True q show ?thesis by (simp add: market_buy_def mexc_post_def)
        next
          case (Inr price)
          with reply has True q show ?thesis
            by (simp add: market_buy_def mexc_post_def time_time_def send_telegram_def)
        qed
      qed
    qed
  qed
qed

lemma market_buy_posts_first:
  "\<exists>evs. events_since st (snd (market_buy E s st)) =
          Post (Buy s (BUY_USDT_AMOUNT E (tick st))) # evs"
  by (cases rule: market_buy_cases [of E s st]) (simp_all add: events_since_def)

lemma paused_cycle_events:
  "\<not> bot_running E (tick st) \<Longrightarrow> events_since st (snd (cycle E known st)) = [Sleep 2]"
  by (simp add: cycle_def sleep_def events_since_def)

text \<open>
  Claim C4, as the code has it. A market buy is submitted only in an iteration that
  began with \<^verbatim>\<open>bot_running\<close> true. \<^verbatim>\<open>market_buy\<close> itself checks nothing before it
  posts the order: its first event is the order, and its result and its events are the
  same whatever the table holds, so also when a row for the symbol exists. This is no
  error: on a fill the call returns normally and the row of the fill is then the only
  row for the symbol (the earlier row is replaced).
\<close>

theorem open_position_checks:
  "(Post (Buy s a) \<in> set (events_since st (snd (cycle E known st))) \<longrightarrow>
      bot_running E (tick st)) \<and>
   (\<exists>evs. events_since st (snd (market_buy E s st)) =
           Post (Buy s (BUY_USDT_AMOUNT E (tick st))) # evs) \<and>
   fst (market_buy E s (st\<lparr>positions := rows\<rparr>)) = fst (market_buy E s st) \<and>
   trace (snd (market_buy E s (st\<lparr>positions := rows\<rparr>))) = trace (snd (market_buy E s st)) \<and>
   (fill_of E s st = Some (q, price) \<longrightarrow>
      fst (market_buy E s st) = Inr () \<and>
      filter (\<lambda>r. symbol r = s) (positions (snd (market_buy E s st)))
        = [filled_row E s q price st])"
proof (intro conjI impI)
  assume ev: "Post (Buy s a) \<in> set (events_since st (snd (cycle E known st)))"
  show "bot_running E (tick st)"
  proof (rule ccontr)
    assume "\<not> bot_running E (tick st)"
    then have "events_since st (snd (cycle E known st)) = [Sleep 2]"
      by (rule paused_cycle_events)
    with ev show False by simp
  qed
next
  show "\<exists>evs. events_since st (snd (market_buy E s st)) =
           Post (Buy s (BUY_USDT_AMOUNT E (tick st))) # evs"
    by (rule market_buy_posts_first)
next
  show "fst (market_buy E s (st\<lparr>positions := rows\<rparr>)) = fst (market_buy E s st)"
    by (simp add: market_buy_ignores_table)
next
  show "trace (snd (market_buy E s (st\<lparr>positions := rows\<rparr>))) = trace (snd (market_buy E s st))"
    by (simp add: market_buy_ignores_table)
next
  assume "fill_of E s st = Some (q, price)"
  then show "fst (market_buy E s st) = Inr ()" by (simp add: market_buy_filled)
next
  assume "fill_of E s st = Some (q, price)"
  then show "filter (\<lambda>r. symbol r = s) (positions (snd (market_buy E s st)))
        = [filled_row E s q price st]"
    by (rule market_buy_filled_row)
qed

lemma relisting_cycle:
  "cycle relisting {} (boot [holding ''AUSDT'' 100]) =
     (Inr {''AUSDT''},
      \<lparr>positions = [\<lparr>symbol = ''AUSDT'', qty = 2, entry_price = 120, entry_time = 0,
                      high_price = 120\<rparr>],
       tick = 8,
       trace = [Get ExchangeInfo, Get (Klines ''AUSDT'' ''1m'' 5), Post (Buy ''AUSDT'' 1),
                Telegram (BuyExecuted ''AUSDT'' 2 120), Get (TickerPrice ''AUSDT''),
                Sleep 20]\<rparr>)"
  by (simp add: engine_defs scenario_defs)

text \<open>
  Claim C4 as stated fails: a position for \<^verbatim>\<open>AUSDT\<close> is in the table, the process has
  just started (nothing is known yet), the exchange lists \<^verbatim>\<open>AUSDT\<close> with flat candles,
  and the iteration submits a market buy for \<^verbatim>\<open>AUSDT\<close> all the same.
\<close>

theorem buy_for_held_symbol:
  "''AUSDT'' \<in> set (map symbol (positions (boot [holding ''AUSDT'' 100]))) \<and>
   Post (Buy ''AUSDT'' 1) \<in>
     set (events_since (boot [holding ''AUSDT'' 100])
            (snd (cycle relisting {} (boot [holding ''AUSDT'' 100]))))"
  by (simp add: relisting_cycle events_since_def) (simp add: holding_def)

theorem open_position_checks_witness:
  "Post (Buy ''AUSDT'' 1) \<in>
     set (events_since (boot [holding ''AUSDT'' 100])
            (snd (cycle relisting {} (boot [holding ''AUSDT'' 100])))) \<and>
   bot_running relisting (tick (boot [holding ''AUSDT'' 100])) \<and>
   fill_of relisting ''AUSDT'' (boot [holding ''AUSDT'' 100]) = Some (2, 100) \<and>
   fst (market_buy relisting ''AUSDT'' (boot [holding ''AUSDT'' 100])) = Inr () \<and>
   filter (\<lambda>r. symbol r = ''AUSDT'')
     (positions (snd (market_buy relisting ''AUSDT'' (boot [holding ''AUSDT'' 100]))))
     = [\<lparr>symbol = ''AUSDT'', qty = 2, entry_price = 100, entry_time = 0, high_price = 100\<rparr>]"
proof -
  let ?st = "boot [holding ''AUSDT'' 100]"
  have ev: "Post (Buy ''AUSDT'' 1) \<in> set (events_since ?st (snd (cycle relisting {} ?st)))"
    by (simp add: relisting_cycle events_since_def)
  have fill: "fill_of relisting ''AUSDT'' ?st = Some (2, 100)"
    by (simp add: fill_of_def relisting_def rising_fills_def closed_exchange_def
        filled_order_def float_table_def executed_qty_def fill_price_def)
  have row: "filled_row relisting ''AUSDT'' 2 100 ?st =
      \<lparr>symbol = ''AUSDT'', qty = 2, entry_price = 100, entry_time = 0, high_price = 100\<rparr>"
    by (simp add: filled_row_def relisting_def rising_fills_def closed_exchange_def)
  from open_position_checks [of "''AUSDT''" 1 ?st relisting "{}" "[]" 2 100] ev fill
  have "bot_running relisting (tick ?st)"
    "fst (market_buy relisting ''AUSDT'' ?st) = Inr ()"
    "filter (\<lambda>r. symbol r = ''AUSDT'') (positions (snd (market_buy relisting ''AUSDT'' ?st)))
       = [filled_row relisting ''AUSDT'' 2 100 ?st]"
    by blast+
  with ev fill show ?thesis unfolding row by simp
qed

subsection \<open>The mark is never below the entry price, anywhere in the table\<close>

lemma monitor_position_others:
  assumes "x \<in> set (positions st)" and "symbol x \<noteq> symbol r"
  shows "x \<in> set (positions (snd (monitor_position E r st)))"
proof (rule monitor_position_preserves [where I = "\<lambda>rows. x \<in> set rows"])
  show "x \<in> set (delete_position (symbol r) rows)" if "x \<in> set rows" for rows
    using that assms(2) by (simp add: delete_position_def)
  show "x \<in> set (update_high price (symbol r) rows)" if "x \<in> set rows" for rows price
    using that assms(2) by (force simp: update_high_def)
  show "x \<in> set (positions st)" by (rule assms(1))
qed

lemma monitor_position_marks:
  assumes r: "r \<in> set (positions st)"
    and d: "distinct (map symbol (positions st))"
    and g: "list_all (\<lambda>x. entry_price x \<le> high_price x) (positions st)"
  shows "list_all (\<lambda>x. entry_price x \<le> high_price x)
           (positions (snd (monitor_position E r st)))"
proof -
  let ?I = "\<lambda>rows. list_all (\<lambda>x. entry_price x \<le> high_price x) rows \<and>
                    list_all (\<lambda>y. if symbol y = symbol r then entry_price y = entry_price r
                                   else True) rows"
  from r g have good: "entry_price r \<le> high_price r" by (simp add: list_all_iff)
  have same: "y = r" if "y \<in> set (positions st)" "symbol y = symbol r" for y
  proof -
    from that have "y \<in> set (filter (\<lambda>x. symbol x = symbol r) (positions st))" by simp
    with filter_row [OF r d] show ?thesis by simp
  qed
  have "?I (positions (snd (monitor_position E r st)))"
  proof (rule monitor_position_preserves [where I = ?I])
    show "?I (delete_position (symbol r) rows)" if "?I rows" for rows
      using that by (simp add: delete_position_def list_all_iff)
    show "?I (update_high price (symbol r) rows)" if "?I rows" "high_price r < price"
      for rows price
      using that good by (auto simp: update_high_def list_all_iff)
    show "?I (positions st)" using g same by (auto simp: list_all_iff)
  qed
  then show ?thesis by simp
qed

lemma monitor_positions_marks:
  assumes "set rows \<subseteq> set (positions st)" and "distinct (map symbol rows)"
    and "distinct (map symbol (positions st))"
    and "list_all (\<lambda>x. entry_price x \<le> high_price x) (positions st)"
  shows "list_all (\<lambda>x. entry_price x \<le> high_price x)
           (positions (snd (monitor_positions E rows st)))"
  using assms
proof (induction rows arbitrary: st)
  case Nil
  then show ?case by simp
next
  case (Cons r rows)
  obtain res st1 where mp: "monitor_position E r st = (res, st1)"
    by (cases "monitor_position E r st")
  from Cons.prems have r: "r \<in> set (positions st)" by simp
  from monitor_position_marks [OF r Cons.prems(3,4), of E] mp
  have g1: "list_all (\<lambda>x. entry_price x \<le> high_price x) (positions st1)" by simp
  from monitor_position_distinct [OF Cons.prems(3), of E r] mp
  have d1: "distinct (map symbol (positions st1))" by simp
  have sub: "set rows \<subseteq> set (positions st1)"
  proof
    fix x assume x: "x \<in> set rows"
    with Cons.prems(1) have a: "x \<in> set (positions st)" by auto
    from x have "symbol x \<in> set (map symbol rows)" by simp
    with Cons.prems(2) have "symbol x \<noteq> symbol r" by auto
    note a this
    from monitor_position_others [OF this, of E] mp show "x \<in> set (positions st1)" by simp
  qed
  show ?case
  proof (cases res)
    case (Inl e)
    with mp g1 show ?thesis by simp
  next
    case (Inr u)
    from Cons.prems(2) have "distinct (map symbol rows)" by simp
    from Cons.IH [OF sub this d1 g1] mp Inr show ?thesis by simp
  qed
qed

lemma market_buy_marks:
  assumes "list_all (\<lambda>x. entry_price x \<le> high_price x) (positions st)"
  shows "list_all (\<lambda>x. entry_price x \<le> high_price x) (positions (snd (market_buy E s st)))"
proof (rule market_buy_preserves [where I = "list_all (\<lambda>x. entry_price x \<le> high_price x)"])
  show "list_all (\<lambda>x. entry_price x \<le> high_price x) (insert_or_replace row rows)"
    if "list_all (\<lambda>x. entry_price x \<le> high_price x) rows" "high_price row = entry_price row"
    for row rows
    using that by (simp add: insert_or_replace_def list_all_iff)
  show "list_all (\<lambda>x. entry_price x \<le> high_price x) (positions st)" by (rule assms)
qed

lemma open_new_listings_preserves:
  assumes step: "\<And>s st. I (positions st) \<Longrightarrow> I (positions (snd (market_buy E s st)))"
    and "I (positions st)"
  shows "I (positions (snd (open_new_listings E new st)))"
  using assms(2)
proof (induction new arbitrary: st)
  case Nil
  then show ?case by simp
next
  case (Cons s new)
  let ?st1 = "emit (Get (Klines s INTERVAL CANDLE_LIMIT)) st"
  from Cons.prems have i1: "I (positions ?st1)" by simp
  show ?case
  proof (cases "buy_candidate (get_reply E (tick st) (Klines s INTERVAL CANDLE_LIMIT))")
    case (Inl e)
    with i1 show ?thesis by (simp add: mexc_get_def)
  next
    case cand: (Inr b)
    show ?thesis
    proof (cases b)
      case False
      with cand Cons.IH [OF i1] show ?thesis by (simp add: mexc_get_def)
    next
      case True
      obtain res st2 where mb: "market_buy E s ?st1 = (res, st2)"
        by (cases "market_buy E s ?st1")
      with step [OF i1, of s] have i2: "I (positions st2)" by simp
      show ?thesis
      proof (cases res)
        case (Inl e)
        with cand True mb i2 show ?thesis by (simp add: mexc_get_def)
      next
        case (Inr u)
        with cand True mb Cons.IH [OF i2] show ?thesis by (simp add: mexc_get_def)
      qed
    qed
  qed
qed

lemma cycle_marks:
  assumes d: "distinct (map symbol (positions st))"
    and g: "list_all (\<lambda>x. entry_price x \<le> high_price x) (positions st)"
  shows "list_all (\<lambda>x. entry_price x \<le> high_price x) (positions (snd (cycle E known st)))"
proof -
  let ?G = "list_all (\<lambda>x. entry_price x \<le> high_price x)"
  let ?st1 = "emit (Get ExchangeInfo) st"
  have g2: "?G (positions (snd (open_new_listings E new ?st1)))" for new
    by (rule open_new_listings_preserves [where I = ?G]) (simp_all add: market_buy_marks g)
  have d2: "distinct (map symbol (positions (snd (open_new_listings E new ?st1))))" for new
    by (rule open_new_listings_distinct) (simp add: d)
  have g3: "?G (positions (snd (monitor_positions E (positions st2) st2)))"
    if "st2 = snd (open_new_listings E new ?st1)" for st2 new
    by (rule monitor_positions_marks) (simp_all add: that g2 d2)
  show ?thesis
  proof (cases rule: cycle_cases [of E st known])
    case paused
    with g show ?thesis by (simp add: sleep_def)
  next
    case no_info
    with g show ?thesis by (simp add: sleep_def)
  next
    case (bad_info info e)
    with g show ?thesis by simp
  next
    case (discovery_raised info symbols e st2)
    with g2 [of "filter (\<lambda>s. s \<notin> known) symbols"] show ?thesis by simp
  next
    case (monitor_raised info symbols u st2 e st3)
    with g3 [of st2 "filter (\<lambda>s. s \<notin> known) symbols"] show ?thesis by simp
  next
    case (completed info symbols u st2 v st3)
    with g3 [of st2 "filter (\<lambda>s. s \<notin> known) symbols"] show ?thesis by (simp add: sleep_def)
  qed
qed

lemma trading_cycles_marks:
  "distinct (map symbol (positions st)) \<Longrightarrow>
   list_all (\<lambda>x. entry_price x \<le> high_price x) (positions st) \<Longrightarrow>
     list_all (\<lambda>x. entry_price x \<le> high_price x)
       (positions (snd (trading_cycles E n known st)))"
proof (induction n arbitrary: known st)
  case 0
  then show ?case by simp
next
  case (Suc n)
  obtain res st1 where c: "cycle E known st = (res, st1)" by (cases "cycle E known st")
  from cycle_distinct [OF Suc.prems(1), of E known] c
  have d1: "distinct (map symbol (positions st1))" by simp
  from cycle_marks [OF Suc.prems, of E known] c
  have g1: "list_all (\<lambda>x. entry_price x \<le> high_price x) (positions st1)" by simp
  show ?case
  proof (cases res)
    case (Inl e)
    with c g1 show ?thesis by simp
  next
    case (Inr known1)
    with c Suc.IH [OF d1 g1] show ?thesis by simp
  qed
qed

subsection \<open>The paused engine\<close>

lemma running_cycle_starts:
  assumes "bot_running E (tick st)"
  shows "\<exists>evs. events_since st (snd (cycle E known st)) = Get ExchangeInfo # evs"
proof -
  let ?st1 = "emit (Get ExchangeInfo) st"
  have first: "extends_by (\<lambda>ev. True) st ?st1" by (simp add: extends_by_emit)
  have "\<exists>evs. events_since st st' = Get ExchangeInfo # evs"
    if "extends_by (\<lambda>ev. True) ?st1 st'" for st'
    using events_since_append [OF first that] by (simp add: events_since_def [of st ?st1])
  note start = this
  have any: "extends_by (\<lambda>ev. True) a b" if "extends_by P a b" for P a b
    using that by (rule extends_by_mono) simp
  have disc: "extends_by (\<lambda>ev. True) ?st1 (snd (open_new_listings E new ?st1))" for new
    by (rule any [OF open_new_listings_extends])
  have mon: "extends_by (\<lambda>ev. True) st' (snd (monitor_positions E rows st'))" for st' rows
    by (rule any [OF monitor_positions_extends])
  have nap: "extends_by (\<lambda>ev. True) st' (sleep k st')" for st' k
    by (simp add: extends_by_sleep)
  show ?thesis
  proof (cases rule: cycle_cases [of E st known])
    case paused
    with assms show ?thesis by simp
  next
    case no_info
    with start [OF nap [of ?st1 5]] show ?thesis by simp
  next
    case (bad_info info e)
    with start [of ?st1] show ?thesis by simp
  next
    case (discovery_raised info symbols e st2)
    with start [OF disc [of "filter (\<lambda>s. s \<notin> known) symbols"]] show ?thesis by simp
  next
    case (monitor_raised info symbols u st2 e st3)
    with disc [of "filter (\<lambda>s. s \<notin> known) symbols"]
    have "extends_by (\<lambda>ev. True) ?st1 st2" by simp
    from extends_by_trans [OF this mon [of st2 "positions st2"]] monitor_raised
    have "extends_by (\<lambda>ev. True) ?st1 st3" by simp
    from start [OF this] monitor_raised show ?thesis by simp
  next
    case (completed info symbols u st2 v st3)
    with disc [of "filter (\<lambda>s. s \<notin> known) symbols"]
    have "extends_by (\<lambda>ev. True) ?st1 st2" by simp
    from extends_by_trans [OF this mon [of st2 "positions st2"]] completed
    have "extends_by (\<lambda>ev. True) ?st1 st3" by simp
    from extends_by_trans [OF this nap [of st3 CHECK_INTERVAL]]
    have "extends_by (\<lambda>ev. True) ?st1 (sleep CHECK_INTERVAL st3)" .
    from start [OF this] completed show ?thesis by simp
  qed
qed

text \<open>
  Claim C8. An iteration that begins while \<^verbatim>\<open>bot_running\<close> is false does nothing but
  \<^verbatim>\<open>time.sleep(2)\<close>: the only event it adds is that sleep (so no gateway call), the
  table and the known-symbols set are unchanged, and the loop goes on with the next
  iteration, which reads the flag again. If the flag is true by then, that iteration is
  a full one, from the same table and known set: it begins by fetching the listing.
\<close>

theorem paused_cycle:
  "\<not> bot_running E (tick st) \<Longrightarrow>
     cycle E known st = (Inr known, sleep 2 st) \<and>
     positions (sleep 2 st) = positions st \<and>
     events_since st (sleep 2 st) = [Sleep 2] \<and>
     list_all (\<lambda>ev. \<not> gateway_call ev) (events_since st (sleep 2 st)) \<and>
     trading_cycles E (Suc n) known st = trading_cycles E n known (sleep 2 st) \<and>
     (bot_running E (tick (sleep 2 st)) \<longrightarrow>
        (\<exists>evs. events_since (sleep 2 st) (snd (cycle E known (sleep 2 st)))
                 = Get ExchangeInfo # evs))"
  by (simp add: cycle_def [of E known st] sleep_def [of 2 st] events_since_def [of st]
        running_cycle_starts)

theorem paused_cycle_witness:
  "\<not> bot_running (closed_exchange\<lparr>bot_running := (\<lambda>t. 0 < t)\<rparr>) (tick (boot [])) \<and>
   cycle (closed_exchange\<lparr>bot_running := (\<lambda>t. 0 < t)\<rparr>) {} (boot []) =
     (Inr {}, sleep 2 (boot [])) \<and>
   events_since (boot []) (sleep 2 (boot [])) = [Sleep 2] \<and>
   trading_cycles (closed_exchange\<lparr>bot_running := (\<lambda>t. 0 < t)\<rparr>) (Suc 1) {} (boot []) =
     trading_cycles (closed_exchange\<lparr>bot_running := (\<lambda>t. 0 < t)\<rparr>) 1 {} (sleep 2 (boot [])) \<and>
   bot_running (closed_exchange\<lparr>bot_running := (\<lambda>t. 0 < t)\<rparr>) (tick (sleep 2 (boot []))) \<and>
   events_since (sleep 2 (boot []))
     (snd (cycle (closed_exchange\<lparr>bot_running := (\<lambda>t. 0 < t)\<rparr>) {} (sleep 2 (boot []))))
     = [Get ExchangeInfo, Sleep 5]"
proof -
  let ?E = "closed_exchange\<lparr>bot_running := (\<lambda>t. 0 < t)\<rparr>"
  have paused: "\<not> bot_running ?E (tick (boot []))" by simp
  have resumed: "bot_running ?E (tick (sleep 2 (boot [])))" by (simp add: sleep_def)
  have next_cycle: "events_since (sleep 2 (boot [])) (snd (cycle ?E {} (sleep 2 (boot []))))
      = [Get ExchangeInfo, Sleep 5]"
    by (simp add: cycle_def sleep_def mexc_get_def closed_exchange_def events_since_def)
  from paused resumed next_cycle paused_cycle [OF paused, of "{}" 1] show ?thesis by simp
qed

subsection \<open>What a failure of the exchange does, in general\<close>

text \<open>A listing that cannot be fetched costs one iteration and nothing else.\<close>

lemma failed_listing_is_skipped:
  "bot_running E (tick st) \<Longrightarrow> get_reply E (tick st) ExchangeInfo = None \<Longrightarrow>
     cycle E known st = (Inr known, sleep 5 (emit (Get ExchangeInfo) st))"
  by (simp add: cycle_def mexc_get_def)

text \<open>Candles that cannot be fetched cost the symbol its chance in this iteration; the
  loop over the new symbols goes on.\<close>

lemma failed_candles_are_skipped:
  "get_reply E (tick st) (Klines s INTERVAL CANDLE_LIMIT) = None \<Longrightarrow>
     open_new_listings E (s # new) st =
       open_new_listings E new (emit (Get (Klines s INTERVAL CANDLE_LIMIT)) st)"
  by (simp add: mexc_get_def buy_candidate_def)

text \<open>A ticker that cannot be fetched raises, and the rows after it are not visited.\<close>

lemma failed_ticker_ends_monitoring:
  "get_reply E (tick st) (TickerPrice (symbol r)) = None \<Longrightarrow>
     monitor_positions E (r # rows) st =
       (Inl TypeError, emit (Get (TickerPrice (symbol r))) st)"
  by (simp add: monitor_position_def mexc_get_def)

text \<open>An exception in an iteration is the result of the loop, however many iterations
  it was given.\<close>

lemma raised_cycle_ends_loop:
  "cycle E known st = (Inl e, st1) \<Longrightarrow> trading_cycles E (Suc n) known st = (Some e, st1)"
  by simp

text \<open>A market sell that is answered deletes the row, whatever the answer; one that
  raises leaves the table as it was.\<close>

lemma answered_sell_deletes_row:
  assumes "select_qty s (positions st) = Some q"
    and "post_reply E (tick st) (Sell s q) = Inr data"
  shows "market_sell E s why st =
           (Inr (), emit (Telegram (SellExecuted why s data))
                      ((emit (Post (Sell s q)) st)
                         \<lparr>positions := delete_position s (positions st)\<rparr>))"
    and "s \<notin> set (map symbol (positions (snd (market_sell E s why st))))"
proof -
  show eq: "market_sell E s why st =
           (Inr (), emit (Telegram (SellExecuted why s data))
                      ((emit (Post (Sell s q)) st)
                         \<lparr>positions := delete_position s (positions st)\<rparr>))"
    using assms by (simp add: market_sell_def mexc_post_def send_telegram_def)
  show "s \<notin> set (map symbol (positions (snd (market_sell E s why st))))"
    unfolding eq by (auto simp: delete_position_def)
qed

lemma raised_sell_keeps_table:
  assumes "select_qty s (positions st) = Some q"
    and "post_reply E (tick st) (Sell s q) = Inl e"
  shows "market_sell E s why st = (Inl e, emit (Post (Sell s q)) st)"
  using assms by (simp add: market_sell_def mexc_post_def)

text \<open>An order that is answered without an \<^verbatim>\<open>orderId\<close> is reported and writes
  nothing.\<close>

lemma rejected_buy_is_reported:
  assumes "post_reply E (tick st) (Buy s (BUY_USDT_AMOUNT E (tick st))) = Inr data"
    and "py_contains ''orderId'' data = Inr False"
  shows "market_buy E s st =
           (Inr (), emit (Telegram (BuyFailed s data))
                      (emit (Post (Buy s (BUY_USDT_AMOUNT E (tick st)))) st))"
  using assms by (simp add: market_buy_def mexc_post_def send_telegram_def)

subsection \<open>The table follows the ledger\<close>

lemma stored_Some: "stored rows s = Some x \<Longrightarrow> x \<in> set rows \<and> symbol x = s"
  unfolding stored_def by (induction rows) (auto split: if_splits)

lemma stored_mem:
  "distinct (map symbol rows) \<Longrightarrow> r \<in> set rows \<Longrightarrow> stored rows (symbol r) = Some r"
  unfolding stored_def by (induction rows) force+

lemma stored_absent: "s \<notin> set (map symbol rows) \<Longrightarrow> stored rows s = None"
  unfolding stored_def by (induction rows) auto

lemma stored_filter_other:
  "s' \<noteq> s \<Longrightarrow> stored (filter (\<lambda>r. symbol r \<noteq> s') rows) s = stored rows s"
  unfolding stored_def by (induction rows) auto

lemma stored_filter_same: "stored (filter (\<lambda>r. symbol r \<noteq> s) rows) s = None"
  unfolding stored_def by (induction rows) auto

lemma stored_append:
  "stored (rows @ rows') s = (case stored rows s of None \<Rightarrow> stored rows' s | Some r \<Rightarrow> Some r)"
  unfolding stored_def by (induction rows) auto

lemma stored_insert_or_replace:
  "stored (insert_or_replace p rows) s = (if symbol p = s then Some p else stored rows s)"
  by (auto simp: insert_or_replace_def stored_append stored_filter_same stored_filter_other
        split: option.splits)
     (simp_all add: stored_def)

lemma stored_delete_position:
  "stored (delete_position s' rows) s = (if s' = s then None else stored rows s)"
  by (simp add: delete_position_def stored_filter_same stored_filter_other)

lemma stored_update_high:
  "stored (update_high price s' rows) s =
     (if s' = s then map_option (\<lambda>r. r\<lparr>high_price := price\<rparr>) (stored rows s)
      else stored rows s)"
  unfolding stored_def update_high_def by (induction rows) auto

lemma stored_price_seen:
  assumes "r \<in> set (positions st)" and "distinct (map symbol (positions st))"
  shows "stored (positions (price_seen price r st)) s =
           (if symbol r = s then Some (observe price r) else stored (positions st) s)"
  using stored_mem [OF assms(2,1)]
  by (auto simp: price_seen_def stored_update_high observe_def)

lemma market_sell_table:
  "positions (snd (market_sell E s why st)) = positions st \<or>
   positions (snd (market_sell E s why st)) = delete_position s (positions st)"
  by (cases rule: market_sell_cases [of s st E why]) simp_all

lemma ticker_price_Some:
  "ticker_price E t s = Some price \<longleftrightarrow>
     (\<exists>reply p. get_reply E t (TickerPrice s) = Some reply \<and>
        py_getitem reply ''price'' = Inr p \<and> py_float E p = Inr price)"
  by (auto simp: ticker_price_def split: option.splits sum.splits)

lemma monitor_position_table:
  "positions (snd (monitor_position E r st)) =
     (case ticker_price E (tick st) (symbol r) of
        None \<Rightarrow> positions st
      | Some price \<Rightarrow> positions (price_seen price r st)) \<or>
   positions (snd (monitor_position E r st)) =
     (case ticker_price E (tick st) (symbol r) of
        None \<Rightarrow> positions st
      | Some price \<Rightarrow> delete_position (symbol r) (positions (price_seen price r st)))"
proof (cases "ticker_price E (tick st) (symbol r)")
  case None
  then have "\<not> (\<exists>reply p price. get_reply E (tick st) (TickerPrice (symbol r)) = Some reply \<and>
              py_getitem reply ''price'' = Inr p \<and> py_float E p = Inr price)"
    by (auto simp: ticker_price_def)
  from monitor_position_unpriced [OF this] None show ?thesis by auto
next
  case (Some price)
  then obtain reply p where "get_reply E (tick st) (TickerPrice (symbol r)) = Some reply"
    "py_getitem reply ''price'' = Inr p" "py_float E p = Inr price"
    by (auto simp: ticker_price_Some)
  note eq = monitor_position_priced [OF this]
  let ?st2 = "price_seen price r st"
  let ?st3 = "?st2\<lparr>tick := Suc (Suc (tick st))\<rparr>"
  have a: "positions (snd (market_sell E (symbol r) why ?st2)) = positions ?st2 \<or>
      positions (snd (market_sell E (symbol r) why ?st2)) =
        delete_position (symbol r) (positions ?st2)" for why
    by (rule market_sell_table)
  have b: "positions (snd (market_sell E (symbol r) why ?st3)) = positions ?st2 \<or>
      positions (snd (market_sell E (symbol r) why ?st3)) =
        delete_position (symbol r) (positions ?st2)" for why
    using market_sell_table [of E "symbol r" why ?st3] by simp
  show ?thesis
    unfolding eq using a b Some by (simp split: if_splits)
qed

lemma monitor_position_follows:
  assumes r: "r \<in> set (positions st)" and d: "distinct (map symbol (positions st))"
    and inv: "stored (positions st) s = None \<or> stored (positions st) s = cur"
  shows "stored (positions (snd (monitor_position E r st))) s = None \<or>
         stored (positions (snd (monitor_position E r st))) s
           = tracked (ledger_position E r st) s cur"
proof (cases "ticker_price E (tick st) (symbol r)")
  case None
  with monitor_position_table [of E r st] inv show ?thesis
    by (simp add: ledger_position_def tracked_def)
next
  case (Some price)
  have led: "tracked (ledger_position E r st) s cur =
      (if symbol r = s then map_option (observe price) cur else cur)"
    using Some by (simp add: ledger_position_def tracked_def)
  show ?thesis
  proof (cases "symbol r = s")
    case True
    with stored_mem [OF d r] inv have "cur = Some r" by simp
    with True led have "tracked (ledger_position E r st) s cur = Some (observe price r)" by simp
    with monitor_position_table [of E r st] Some True show ?thesis
      by (auto simp: stored_price_seen [OF r d] stored_delete_position)
  next
    case False
    with monitor_position_table [of E r st] Some led inv show ?thesis
      by (auto simp: stored_price_seen [OF r d] stored_delete_position)
  qed
qed

lemma market_buy_follows:
  assumes "stored (positions st) s = None \<or> stored (positions st) s = cur"
  shows "stored (positions (snd (market_buy E s' st))) s = None \<or>
         stored (positions (snd (market_buy E s' st))) s = tracked (ledger_buy E s' st) s cur"
proof (cases "fill_of E s' st")
  case None
  with market_buy_unfilled [OF None] assms show ?thesis
    by (simp add: ledger_buy_def tracked_def)
next
  case (Some f)
  obtain q price where f: "f = (q, price)" by (cases f)
  with Some have fill: "fill_of E s' st = Some (q, price)" by simp
  have "symbol (filled_row E s' q price st) = s'" by (simp add: filled_row_def)
  with assms fill show ?thesis
    by (auto simp: market_buy_filled [OF fill] ledger_buy_def tracked_def
          stored_insert_or_replace)
qed

lemma tracked_Nil [simp]: "tracked [] s cur = cur"
  and tracked_append [simp]:
    "tracked (entries @ entries') s cur = tracked entries' s (tracked entries s cur)"
  and tracked_Cons [simp]:
    "tracked (entry # entries) s cur = tracked entries s (mark_step s entry cur)"
  by (simp_all add: tracked_def)

lemma monitor_positions_follows:
  assumes "set rows \<subseteq> set (positions st)" and "distinct (map symbol rows)"
    and "distinct (map symbol (positions st))"
    and "stored (positions st) s = None \<or> stored (positions st) s = cur"
  shows "stored (positions (snd (monitor_positions E rows st))) s = None \<or>
         stored (positions (snd (monitor_positions E rows st))) s
           = tracked (ledger_positions E rows st) s cur"
  using assms
proof (induction rows arbitrary: st cur)
  case Nil
  then show ?case by simp
next
  case (Cons r rows)
  obtain res st1 where mp: "monitor_position E r st = (res, st1)"
    by (cases "monitor_position E r st")
  from Cons.prems have r: "r \<in> set (positions st)" by simp
  let ?cur1 = "tracked (ledger_position E r st) s cur"
  from monitor_position_follows [OF r Cons.prems(3,4), of E] mp
  have inv1: "stored (positions st1) s = None \<or> stored (positions st1) s = ?cur1" by simp
  from monitor_position_distinct [OF Cons.prems(3), of E r] mp
  have d1: "distinct (map symbol (positions st1))" by simp
  have sub: "set rows \<subseteq> set (positions st1)"
  proof
    fix x assume x: "x \<in> set rows"
    with Cons.prems(1) have a: "x \<in> set (positions st)" by auto
    from x have "symbol x \<in> set (map symbol rows)" by simp
    with Cons.prems(2) have "symbol x \<noteq> symbol r" by auto
    from monitor_position_others [OF a this, of E] mp show "x \<in> set (positions st1)" by simp
  qed
  show ?case
  proof (cases res)
    case (Inl e)
    with mp inv1 show ?thesis by simp
  next
    case (Inr u)
    from Cons.prems(2) have "distinct (map symbol rows)" by simp
    from Cons.IH [OF sub this d1 inv1] mp Inr show ?thesis by simp
  qed
qed

lemma open_new_listings_follows:
  assumes "stored (positions st) s = None \<or> stored (positions st) s = cur"
  shows "stored (positions (snd (open_new_listings E new st))) s = None \<or>
         stored (positions (snd (open_new_listings E new st))) s
           = tracked (ledger_new_listings E new st) s cur"
  using assms
proof (induction new arbitrary: st cur)
  case Nil
  then show ?case by simp
next
  case (Cons s' new)
  let ?st1 = "emit (Get (Klines s' INTERVAL CANDLE_LIMIT)) st"
  from Cons.prems have i1: "stored (positions ?st1) s = None \<or> stored (positions ?st1) s = cur"
    by simp
  show ?case
  proof (cases "buy_candidate (get_reply E (tick st) (Klines s' INTERVAL CANDLE_LIMIT))")
    case (Inl e)
    with i1 show ?thesis by (simp add: mexc_get_def)
  next
    case cand: (Inr b)
    show ?thesis
    proof (cases b)
      case False
      with cand Cons.IH [OF i1] show ?thesis by (simp add: mexc_get_def)
    next
      case True
      obtain res st2 where mb: "market_buy E s' ?st1 = (res, st2)"
        by (cases "market_buy E s' ?st1")
      let ?cur2 = "tracked (ledger_buy E s' ?st1) s cur"
      from market_buy_follows [OF i1, of E s'] mb
      have i2: "stored (positions st2) s = None \<or> stored (positions st2) s = ?cur2" by simp
      show ?thesis
      proof (cases res)
        case (Inl e)
        with cand True mb i2 show ?thesis by (simp add: mexc_get_def)
      next
        case (Inr u)
        with cand True mb Cons.IH [OF i2] show ?thesis by (simp add: mexc_get_def)
      qed
    qed
  qed
qed

lemma cycle_follows:
  assumes d: "distinct (map symbol (positions st))"
    and inv: "stored (positions st) s = None \<or> stored (positions st) s = cur"
  shows "stored (positions (snd (cycle E known st))) s = None \<or>
         stored (positions (snd (cycle E known st))) s
           = tracked (ledger_cycle E known st) s cur"
proof (cases "bot_running E (tick st)")
  case False
  with inv show ?thesis by (simp add: cycle_def ledger_cycle_def sleep_def)
next
  case run: True
  let ?st1 = "emit (Get ExchangeInfo) st"
  from inv have i1: "stored (positions ?st1) s = None \<or> stored (positions ?st1) s = cur"
    by simp
  from d have d1: "distinct (map symbol (positions ?st1))" by simp
  show ?thesis
  proof (cases "get_reply E (tick st) ExchangeInfo")
    case None
    with run inv show ?thesis by (simp add: cycle_def ledger_cycle_def mexc_get_def sleep_def)
  next
    case got: (Some info)
    show ?thesis
    proof (cases "py_truthy info")
      case False
      with run got inv show ?thesis
        by (simp add: cycle_def ledger_cycle_def mexc_get_def sleep_def)
    next
      case truthy: True
      show ?thesis
      proof (cases "listed_symbols info")
        case (Inl e)
        with run got truthy inv show ?thesis
          by (simp add: cycle_def ledger_cycle_def mexc_get_def)
      next
        case syms: (Inr symbols)
        let ?new = "filter (\<lambda>s. s \<notin> known) symbols"
        obtain r2 st2 where disc: "open_new_listings E ?new ?st1 = (r2, st2)"
          by (cases "open_new_listings E ?new ?st1")
        from open_new_listings_follows [OF i1, of E ?new] disc
        have i2: "stored (positions st2) s = None \<or>
            stored (positions st2) s = tracked (ledger_new_listings E ?new ?st1) s cur"
          by simp
        from open_new_listings_distinct [OF d1, of E ?new] disc
        have d2: "distinct (map symbol (positions st2))" by simp
        show ?thesis
        proof (cases r2)
          case (Inl e)
          with run got truthy syms disc i2 show ?thesis
            by (simp add: cycle_def ledger_cycle_def mexc_get_def)
        next
          case u: (Inr u)
          obtain r3 st3 where mon: "monitor_positions E (positions st2) st2 = (r3, st3)"
            by (cases "monitor_positions E (positions st2) st2")
          have "set (positions st2) \<subseteq> set (positions st2)" by simp
          from monitor_positions_follows [OF this d2 d2 i2, of E] mon
          have i3: "stored (positions st3) s = None \<or>
              stored (positions st3) s =
                tracked (ledger_new_listings E ?new ?st1 @
                         ledger_positions E (positions st2) st2) s cur"
            by simp
          show ?thesis
          proof (cases r3)
            case (Inl e)
            with run got truthy syms disc u mon i3 show ?thesis
              by (simp add: cycle_def ledger_cycle_def mexc_get_def)
          next
            case (Inr v)
            with run got truthy syms disc u mon i3 show ?thesis
              by (simp add: cycle_def ledger_cycle_def mexc_get_def sleep_def)
          qed
        qed
      qed
    qed
  qed
qed

lemma trading_cycles_follows:
  assumes "distinct (map symbol (positions st))"
    and "stored (positions st) s = None \<or> stored (positions st) s = cur"
  shows "stored (positions (snd (trading_cycles E n known st))) s = None \<or>
         stored (positions (snd (trading_cycles E n known st))) s
           = tracked (ledger_cycles E n known st) s cur"
  using assms
proof (induction n arbitrary: known st cur)
  case 0
  then show ?case by simp
next
  case (Suc n)
  obtain res st1 where c: "cycle E known st = (res, st1)" by (cases "cycle E known st")
  from cycle_distinct [OF Suc.prems(1), of E known] c
  have d1: "distinct (map symbol (positions st1))" by simp
  from cycle_follows [OF Suc.prems, of E known] c
  have i1: "stored (positions st1) s = None \<or>
      stored (positions st1) s = tracked (ledger_cycle E known st) s cur" by simp
  show ?case
  proof (cases res)
    case (Inl e)
    with c i1 show ?thesis by simp
  next
    case (Inr known1)
    with c Suc.IH [OF d1 i1] show ?thesis by simp
  qed
qed

subsection \<open>Reading the ledger\<close>

lemma tracked_opened_seen:
  "tracked entries s cur =
     map_option (observe_all (seen_since s entries))
       (case opened s entries of Some row \<Rightarrow> Some row | None \<Rightarrow> cur)"
proof (induction entries arbitrary: cur)
  case Nil
  then show ?case by (simp add: option.map_ident)
next
  case (Cons entry entries)
  show ?case
  proof (cases entry)
    case (Opened row)
    with Cons [of "if symbol row = s then Some row else cur"] show ?thesis
      by (simp split: option.splits)
  next
    case (Seen s' price)
    show ?thesis
    proof (cases "s' = s")
      case True
      with Seen Cons [of "map_option (observe price) cur"] show ?thesis
        by (cases cur) (simp_all split: option.splits)
    next
      case False
      with Seen Cons [of cur] show ?thesis by simp
    qed
  qed
qed

lemma opened_mem: "opened s entries = Some row \<Longrightarrow> Opened row \<in> set entries \<and> symbol row = s"
proof (induction entries)
  case Nil
  then show ?case by simp
next
  case (Cons entry entries)
  then show ?case by (cases entry) (auto split: option.splits if_splits)
qed

lemma ledger_buy_fresh:
  "Opened row \<in> set (ledger_buy E s st) \<Longrightarrow> high_price row = entry_price row"
  by (auto simp: ledger_buy_def filled_row_def split: option.splits)

lemma ledger_new_listings_fresh:
  "Opened row \<in> set (ledger_new_listings E new st) \<Longrightarrow> high_price row = entry_price row"
proof (induction new arbitrary: st)
  case Nil
  then show ?case by simp
next
  case (Cons s new)
  let ?st1 = "emit (Get (Klines s INTERVAL CANDLE_LIMIT)) st"
  show ?case
  proof (cases "buy_candidate (get_reply E (tick st) (Klines s INTERVAL CANDLE_LIMIT))")
    case (Inl e)
    with Cons.prems show ?thesis by (simp add: mexc_get_def)
  next
    case cand: (Inr b)
    show ?thesis
    proof (cases b)
      case False
      with cand Cons show ?thesis by (simp add: mexc_get_def)
    next
      case True
      obtain res st2 where mb: "market_buy E s ?st1 = (res, st2)"
        by (cases "market_buy E s ?st1")
      show ?thesis
      proof (cases res)
        case (Inl e)
        with cand True mb Cons.prems show ?thesis
          by (auto simp: mexc_get_def dest: ledger_buy_fresh)
      next
        case (Inr u)
        with cand True mb Cons.prems Cons.IH [of st2] show ?thesis
          by (auto simp: mexc_get_def dest: ledger_buy_fresh)
      qed
    qed
  qed
qed

lemma ledger_positions_fresh:
  "Opened row \<in> set (ledger_positions E rows st) \<Longrightarrow> high_price row = entry_price row"
proof (induction rows arbitrary: st)
  case Nil
  then show ?case by simp
next
  case (Cons r rows)
  obtain res st1 where mp: "monitor_position E r st = (res, st1)"
    by (cases "monitor_position E r st")
  have "Opened row \<notin> set (ledger_position E r st)"
    by (simp add: ledger_position_def split: option.splits)
  with Cons.prems mp Cons.IH [of st1] show ?case
    by (cases res) auto
qed

lemma ledger_cycle_fresh:
  "Opened row \<in> set (ledger_cycle E known st) \<Longrightarrow> high_price row = entry_price row"
  by (auto simp: ledger_cycle_def mexc_get_def
        split: if_splits option.splits sum.splits prod.splits
        dest: ledger_new_listings_fresh ledger_positions_fresh)

lemma ledger_cycles_fresh:
  "Opened row \<in> set (ledger_cycles E n known st) \<Longrightarrow> high_price row = entry_price row"
proof (induction n arbitrary: known st)
  case 0
  then show ?case by simp
next
  case (Suc n)
  obtain res st1 where c: "cycle E known st = (res, st1)" by (cases "cycle E known st")
  with Suc.prems Suc.IH show ?case
    by (cases res) (auto dest: ledger_cycle_fresh)
qed

lemma trading_cycles_tracked:
  assumes d: "distinct (map symbol (positions st))"
    and x: "x \<in> set (positions (snd (trading_cycles E n known st)))"
  shows "tracked (ledger_cycles E n known st) (symbol x) (stored (positions st) (symbol x))
           = Some x"
proof -
  from trading_cycles_distinct [OF d, of E n known] x
  have "stored (positions (snd (trading_cycles E n known st))) (symbol x) = Some x"
    by (rule stored_mem)
  with trading_cycles_follows [OF d, of "symbol x" "stored (positions st) (symbol x)" E n known]
  show ?thesis by simp
qed

lemma trading_cycles_opened:
  assumes d: "distinct (map symbol (positions st))"
    and x: "x \<in> set (positions (snd (trading_cycles E n known st)))"
    and o: "opened (symbol x) (ledger_cycles E n known st) = Some row"
  shows "entry_price x = entry_price row"
    and "high_price row = entry_price row"
    and "high_price x =
           Max (insert (entry_price x) (set (seen_since (symbol x) (ledger_cycles E n known st))))"
proof -
  let ?L = "ledger_cycles E n known st"
  from trading_cycles_tracked [OF d x] o
  have eq: "x = observe_all (seen_since (symbol x) ?L) row"
    by (simp add: tracked_opened_seen)
  from opened_mem [OF o] show fresh: "high_price row = entry_price row"
    by (auto dest: ledger_cycles_fresh)
  from eq have "entry_price x = entry_price (observe_all (seen_since (symbol x) ?L) row)"
    by simp
  then show e: "entry_price x = entry_price row" by simp
  from eq have "high_price x = high_price (observe_all (seen_since (symbol x) ?L) row)"
    by simp
  with fresh e show "high_price x = Max (insert (entry_price x) (set (seen_since (symbol x) ?L)))"
    by (simp add: high_price_observe_all)
qed

lemma trading_cycles_kept:
  assumes d: "distinct (map symbol (positions st))"
    and y: "y \<in> set (positions (snd (trading_cycles E n known st)))"
    and o: "opened (symbol y) (ledger_cycles E n known st) = None"
  shows "\<exists>r0. stored (positions st) (symbol y) = Some r0 \<and>
           entry_price y = entry_price r0 \<and> high_price r0 \<le> high_price y \<and>
           high_price y =
             Max (insert (high_price r0) (set (seen_since (symbol y) (ledger_cycles E n known st))))"
proof -
  let ?L = "ledger_cycles E n known st"
  from trading_cycles_tracked [OF d y] o
  obtain r0 where r0: "stored (positions st) (symbol y) = Some r0"
    and eq: "y = observe_all (seen_since (symbol y) ?L) r0"
    by (auto simp: tracked_opened_seen)
  from eq have "entry_price y = entry_price (observe_all (seen_since (symbol y) ?L) r0)"
    "high_price y = high_price (observe_all (seen_since (symbol y) ?L) r0)"
    by simp_all
  then have "entry_price y = entry_price r0"
    "high_price y = Max (insert (high_price r0) (set (seen_since (symbol y) ?L)))"
    "high_price r0 \<le> high_price y"
    by (simp_all add: high_price_observe_all)
  with r0 show ?thesis by blast
qed

subsection \<open>The high-water mark over a run of the loop\<close>

lemmas ledger_defs =
  ledger_buy_def ledger_position_def ledger_cycle_def ticker_price_def fill_of_def
  filled_row_def climbing_def

text \<open>
  Claim C6 as stated fails. \<^verbatim>\<open>AUSDT\<close> is held with mark 200, the process has just
  started, and the exchange lists \<^verbatim>\<open>AUSDT\<close> with flat candles. One iteration buys it
  again at 120: the row is replaced, no sell is made, the symbol never leaves the table,
  and its stored mark has gone from 200 to 120.
\<close>

theorem reopen_lowers_mark:
  "stored (positions (boot [(holding ''AUSDT'' 100)\<lparr>high_price := 200\<rparr>])) ''AUSDT'' =
     Some \<lparr>symbol = ''AUSDT'', qty = 1, entry_price = 100, entry_time = 0, high_price = 200\<rparr> \<and>
   cycle relisting {} (boot [(holding ''AUSDT'' 100)\<lparr>high_price := 200\<rparr>]) =
     (Inr {''AUSDT''},
      \<lparr>positions = [\<lparr>symbol = ''AUSDT'', qty = 2, entry_price = 120, entry_time = 0,
                      high_price = 120\<rparr>],
       tick = 8,
       trace = [Get ExchangeInfo, Get (Klines ''AUSDT'' ''1m'' 5), Post (Buy ''AUSDT'' 1),
                Telegram (BuyExecuted ''AUSDT'' 2 120), Get (TickerPrice ''AUSDT''),
                Sleep 20]\<rparr>)"
  by (simp add: stored_def engine_defs scenario_defs)

text \<open>
  Claim C6, as the code has it. \<^verbatim>\<open>market_buy\<close> writes the row of a fill with
  \<open>high_price\<close> equal to \<open>entry_price\<close>, also over a row already held for the symbol.
  A price observation turns the stored mark into the larger of the mark and the price,
  so the mark changes exactly when the price exceeds it. For a table with one row per
  symbol and any number of iterations of the loop, whether they end by an exception or
  not: every row \<open>x\<close> of the table afterwards is what the ledger of the run makes of the
  row the table had for the symbol. If the run filled an order for the symbol, \<open>x\<close> has
  the entry price of the last such fill and its mark is the maximum of that entry price
  and all prices seen for the symbol since that fill. If it did not, \<open>x\<close> has the entry
  price of the row \<open>r0\<close> the table started with, its mark is the maximum of the mark of
  \<open>r0\<close> and all prices seen for the symbol in the run, hence not below the mark of
  \<open>r0\<close>. And when no mark was below its entry price before the run, none is after it.
\<close>

theorem high_water_mark:
  "(fill_of E s st = Some (q, price) \<longrightarrow>
      filter (\<lambda>x. symbol x = s) (positions (snd (market_buy E s st)))
        = [filled_row E s q price st] \<and>
      high_price (filled_row E s q price st) = entry_price (filled_row E s q price st)) \<and>
   (r \<in> set (positions st) \<and> distinct (map symbol (positions st)) \<and>
    ticker_price E (tick st) (symbol r) = Some seen \<longrightarrow>
      filter (\<lambda>x. symbol x = symbol r) (positions (snd (monitor_position E r st)))
        = [observe seen r] \<or>
      filter (\<lambda>x. symbol x = symbol r) (positions (snd (monitor_position E r st))) = []) \<and>
   high_price (observe seen r) = max (high_price r) seen \<and>
   (high_price (observe seen r) \<noteq> high_price r) = (high_price r < seen) \<and>
   (distinct (map symbol (positions st)) \<and>
    x \<in> set (positions (snd (trading_cycles E n known st))) \<longrightarrow>
      tracked (ledger_cycles E n known st) (symbol x) (stored (positions st) (symbol x))
        = Some x) \<and>
   (distinct (map symbol (positions st)) \<and>
    x \<in> set (positions (snd (trading_cycles E n known st))) \<and>
    opened (symbol x) (ledger_cycles E n known st) = Some row \<longrightarrow>
      entry_price x = entry_price row \<and> high_price row = entry_price row \<and>
      high_price x =
        Max (insert (entry_price x)
               (set (seen_since (symbol x) (ledger_cycles E n known st))))) \<and>
   (distinct (map symbol (positions st)) \<and>
    y \<in> set (positions (snd (trading_cycles E n known st))) \<and>
    opened (symbol y) (ledger_cycles E n known st) = None \<longrightarrow>
      (\<exists>r0. stored (positions st) (symbol y) = Some r0 \<and>
            entry_price y = entry_price r0 \<and> high_price r0 \<le> high_price y \<and>
            high_price y =
              Max (insert (high_price r0)
                     (set (seen_since (symbol y) (ledger_cycles E n known st)))))) \<and>
   (distinct (map symbol (positions st)) \<and>
    list_all (\<lambda>x. entry_price x \<le> high_price x) (positions st) \<longrightarrow>
      list_all (\<lambda>x. entry_price x \<le> high_price x)
        (positions (snd (trading_cycles E n known st))))"
proof (intro conjI impI)
  assume "fill_of E s st = Some (q, price)"
  then show "filter (\<lambda>x. symbol x = s) (positions (snd (market_buy E s st)))
        = [filled_row E s q price st]"
    by (rule market_buy_filled_row)
next
  show "high_price (filled_row E s q price st) = entry_price (filled_row E s q price st)"
    by (simp add: filled_row_def)
next
  assume a: "r \<in> set (positions st) \<and> distinct (map symbol (positions st)) \<and>
    ticker_price E (tick st) (symbol r) = Some seen"
  then obtain reply p where "get_reply E (tick st) (TickerPrice (symbol r)) = Some reply"
    "py_getitem reply ''price'' = Inr p" "py_float E p = Inr seen"
    by (auto simp: ticker_price_Some)
  with a show "filter (\<lambda>x. symbol x = symbol r) (positions (snd (monitor_position E r st)))
        = [observe seen r] \<or>
      filter (\<lambda>x. symbol x = symbol r) (positions (snd (monitor_position E r st))) = []"
    using monitor_position_row [of r st E reply p seen] by blast
next
  show "high_price (observe seen r) = max (high_price r) seen"
    by (rule high_price_observe)
next
  show "(high_price (observe seen r) \<noteq> high_price r) = (high_price r < seen)"
    by (auto simp: observe_def)
next
  assume "distinct (map symbol (positions st)) \<and>
    x \<in> set (positions (snd (trading_cycles E n known st)))"
  then show "tracked (ledger_cycles E n known st) (symbol x) (stored (positions st) (symbol x))
        = Some x"
    by (simp add: trading_cycles_tracked)
next
  assume a: "distinct (map symbol (positions st)) \<and>
    x \<in> set (positions (snd (trading_cycles E n known st))) \<and>
    opened (symbol x) (ledger_cycles E n known st) = Some row"
  then have d: "distinct (map symbol (positions st))"
    and x: "x \<in> set (positions (snd (trading_cycles E n known st)))"
    and o: "opened (symbol x) (ledger_cycles E n known st) = Some row"
    by simp_all
  show "entry_price x = entry_price row" by (rule trading_cycles_opened(1) [OF d x o])
  show "high_price row = entry_price row" by (rule trading_cycles_opened(2) [OF d x o])
  show "high_price x =
        Max (insert (entry_price x)
               (set (seen_since (symbol x) (ledger_cycles E n known st))))"
    by (rule trading_cycles_opened(3) [OF d x o])
next
  assume "distinct (map symbol (positions st)) \<and>
    y \<in> set (positions (snd (trading_cycles E n known st))) \<and>
    opened (symbol y) (ledger_cycles E n known st) = None"
  then show "\<exists>r0. stored (positions st) (symbol y) = Some r0 \<and>
            entry_price y = entry_price r0 \<and> high_price r0 \<le> high_price y \<and>
            high_price y =
              Max (insert (high_price r0)
                     (set (seen_since (symbol y) (ledger_cycles E n known st))))"
    by (simp add: trading_cycles_kept)
next
  assume "distinct (map symbol (positions st)) \<and>
    list_all (\<lambda>x. entry_price x \<le> high_price x) (positions st)"
  then show "list_all (\<lambda>x. entry_price x \<le> high_price x)
        (positions (snd (trading_cycles E n known st)))"
    by (simp add: trading_cycles_marks)
qed

lemma climbing_run:
  "trading_cycles climbing 2 {} (boot [holding ''BUSDT'' 100]) =
     (None,
      \<lparr>positions =
         [\<lparr>symbol = ''BUSDT'', qty = 1, entry_price = 100, entry_time = 0, high_price = 130\<rparr>,
          \<lparr>symbol = ''AUSDT'', qty = 2, entry_price = 120, entry_time = 0, high_price = 130\<rparr>],
       tick = 16,
       trace =
         [Get ExchangeInfo, Get (Klines ''AUSDT'' ''1m'' 5), Post (Buy ''AUSDT'' 1),
          Telegram (BuyExecuted ''AUSDT'' 2 120), Get (TickerPrice ''BUSDT''),
          Get (TickerPrice ''AUSDT''), Sleep 20, Get ExchangeInfo,
          Get (TickerPrice ''BUSDT''), Get (TickerPrice ''AUSDT''), Sleep 20]\<rparr>)"
  by (simp add: numeral_2_eq_2 engine_defs scenario_defs climbing_def)

lemma climbing_ledger:
  "ledger_cycles climbing 2 {} (boot [holding ''BUSDT'' 100]) =
     [Opened \<lparr>symbol = ''AUSDT'', qty = 2, entry_price = 120, entry_time = 0,
              high_price = 120\<rparr>,
      Seen ''BUSDT'' 110, Seen ''AUSDT'' 110, Seen ''BUSDT'' 130, Seen ''AUSDT'' 130]"
  by (simp add: numeral_2_eq_2 ledger_defs engine_defs scenario_defs)

theorem high_water_mark_witness:
  "fill_of climbing ''AUSDT'' (boot [holding ''BUSDT'' 100]) = Some (2, 100) \<and>
   holding ''BUSDT'' 100 \<in> set (positions (boot [holding ''BUSDT'' 100])) \<and>
   distinct (map symbol (positions (boot [holding ''BUSDT'' 100]))) \<and>
   ticker_price climbing (tick (boot [holding ''BUSDT'' 100])) (symbol (holding ''BUSDT'' 100))
     = Some 110 \<and>
   list_all (\<lambda>x. entry_price x \<le> high_price x) (positions (boot [holding ''BUSDT'' 100])) \<and>
   positions (snd (trading_cycles climbing 2 {} (boot [holding ''BUSDT'' 100]))) =
     [\<lparr>symbol = ''BUSDT'', qty = 1, entry_price = 100, entry_time = 0, high_price = 130\<rparr>,
      \<lparr>symbol = ''AUSDT'', qty = 2, entry_price = 120, entry_time = 0, high_price = 130\<rparr>] \<and>
   ledger_cycles climbing 2 {} (boot [holding ''BUSDT'' 100]) =
     [Opened \<lparr>symbol = ''AUSDT'', qty = 2, entry_price = 120, entry_time = 0,
              high_price = 120\<rparr>,
      Seen ''BUSDT'' 110, Seen ''AUSDT'' 110, Seen ''BUSDT'' 130, Seen ''AUSDT'' 130] \<and>
   opened ''AUSDT'' (ledger_cycles climbing 2 {} (boot [holding ''BUSDT'' 100])) =
     Some \<lparr>symbol = ''AUSDT'', qty = 2, entry_price = 120, entry_time = 0, high_price = 120\<rparr> \<and>
   opened ''BUSDT'' (ledger_cycles climbing 2 {} (boot [holding ''BUSDT'' 100])) = None \<and>
   seen_since ''AUSDT'' (ledger_cycles climbing 2 {} (boot [holding ''BUSDT'' 100])) = [110, 130] \<and>
   seen_since ''BUSDT'' (ledger_cycles climbing 2 {} (boot [holding ''BUSDT'' 100])) = [110, 130] \<and>
   tracked (ledger_cycles climbing 2 {} (boot [holding ''BUSDT'' 100])) ''AUSDT''
       (stored (positions (boot [holding ''BUSDT'' 100])) ''AUSDT'') =
     Some \<lparr>symbol = ''AUSDT'', qty = 2, entry_price = 120, entry_time = 0, high_price = 130\<rparr> \<and>
   Max (insert (120::real) (set [110, 130])) = 130 \<and>
   Max (insert (100::real) (set [110, 130])) = 130 \<and>
   list_all (\<lambda>x. entry_price x \<le> high_price x)
     (positions (snd (trading_cycles climbing 2 {} (boot [holding ''BUSDT'' 100]))))"
proof -
  let ?st = "boot [holding ''BUSDT'' 100]"
  let ?b = "holding ''BUSDT'' 100"
  let ?x = "\<lparr>symbol = ''AUSDT'', qty = 2, entry_price = 120, entry_time = 0,
              high_price = (130::real)\<rparr>"
  let ?y = "\<lparr>symbol = ''BUSDT'', qty = 1, entry_price = 100, entry_time = 0,
              high_price = (130::real)\<rparr>"
  let ?row = "\<lparr>symbol = ''AUSDT'', qty = 2, entry_price = 120, entry_time = 0,
              high_price = (120::real)\<rparr>"
  let ?L = "ledger_cycles climbing 2 {} ?st"
  have fill: "fill_of climbing ''AUSDT'' ?st = Some (2, 100)"
    by (simp add: ledger_defs scenario_defs executed_qty_def fill_price_def)
  have held: "?b \<in> set (positions ?st)" "distinct (map symbol (positions ?st))"
    by simp_all
  have price: "ticker_price climbing (tick ?st) (symbol ?b) = Some 110"
    by (simp add: ledger_defs scenario_defs)
  have good: "list_all (\<lambda>x. entry_price x \<le> high_price x) (positions ?st)"
    by (simp add: holding_def)
  have final: "positions (snd (trading_cycles climbing 2 {} ?st)) = [?y, ?x]"
    by (simp add: climbing_run)
  have led: "?L = [Opened ?row, Seen ''BUSDT'' 110, Seen ''AUSDT'' 110, Seen ''BUSDT'' 130,
      Seen ''AUSDT'' 130]"
    by (rule climbing_ledger)
  have oa: "opened (symbol ?x) ?L = Some ?row" and ob: "opened (symbol ?y) ?L = None"
    by (simp_all add: led)
  have sa: "seen_since ''AUSDT'' ?L = [110, 130]" and sb: "seen_since ''BUSDT'' ?L = [110, 130]"
    by (simp_all add: led)
  have mem: "?x \<in> set (positions (snd (trading_cycles climbing 2 {} ?st)))"
    "?y \<in> set (positions (snd (trading_cycles climbing 2 {} ?st)))"
    by (simp_all add: final)
  from high_water_mark [of climbing "''AUSDT''" ?st 2 100 ?b 110 ?x 2 "{}" ?row ?y]
    fill held price good mem oa ob
  have t: "tracked ?L (symbol ?x) (stored (positions ?st) (symbol ?x)) = Some ?x"
    and m: "high_price ?x = Max (insert (entry_price ?x) (set (seen_since (symbol ?x) ?L)))"
    and g: "list_all (\<lambda>x. entry_price x \<le> high_price x)
        (positions (snd (trading_cycles climbing 2 {} ?st)))"
    by blast+
  from m sa have ma: "Max (insert (120::real) (set [110, 130])) = 130" by simp
  have mb: "Max (insert (100::real) (set [110, 130])) = 130" by simp
  from t have ta: "tracked ?L ''AUSDT'' (stored (positions ?st) ''AUSDT'') = Some ?x" by simp
  from oa ob have oa': "opened ''AUSDT'' ?L = Some ?row" and ob': "opened ''BUSDT'' ?L = None"
    by simp_all
  show ?thesis
    using fill held price good final led oa' ob' sa sb ta ma mb g by blast
qed

end
